theory Spec2Isabelle
  imports Complex_Main "HOL-Library.Product_Lexorder"
begin

section \<open>Positional encodings of GraphiT: \<^verbatim>\<open>transformer/position_encoding_test.py\<close>\<close>

text \<open>
  The module computes, for every graph of a dataset, a dense matrix (or a stack of
  matrices) from the graph's connectivity, caches the list of matrices in a pickle file
  per split and attaches it to the dataset as \<^verbatim>\<open>pe_list\<close>.

  Conventions of the embedding.
  \<^item> Floating-point entries are modelled by \<^typ>\<open>real\<close>: rounding is not modelled.
  \<^item> A NumPy/SciPy matrix is a list of rows; a torch tensor of rank 2 or 3 is \<open>Mat\<close> or
    \<open>Cube\<close> (a list of matrices along dimension 0).
  \<^item> Every exception of Python is a value of type \<open>error\<close>, named after its class.
  \<^item> Functions of torch, torch\_geometric, SciPy and NumPy that the module calls are
    embedded from their documented behaviour; each one is introduced where it is used.
\<close>

subsection \<open>Data\<close>

datatype error = AssertionError | IndexError | RuntimeError | TypeError | UnpicklingError

type_synonym matrix = "real list list"

datatype tensor = Mat matrix | Cube "matrix list"

text \<open>
  \<^verbatim>\<open>graph.edge_attr\<close> is an integer tensor of shape \<open>[E, F]\<close> ("num\_edges x edge\_types"
  in the docstring of \<^verbatim>\<open>edge_attr_one_hot\<close>). The number of columns is kept beside the
  rows because a graph without edges still has \<open>F\<close> columns.
\<close>

record int_tensor =
  cols :: nat
  rows :: "int list list"

text \<open>
  \<^verbatim>\<open>graph.edge_index\<close> is an integer tensor of shape \<open>[2, E]\<close>; column \<open>e\<close> holds the two
  endpoints of edge \<open>e\<close>. The model stores the \<open>E\<close> columns as pairs \<open>(row, col)\<close>.
\<close>

record graph =
  num_nodes :: nat
  edge_index :: "(nat \<times> nat) list"
  edge_attr :: "int_tensor option"

text \<open>\<^verbatim>\<open>num_edge_features\<close> is an \<^verbatim>\<open>int\<close> or a sequence of \<^verbatim>\<open>int\<close>.\<close>

datatype int_or_seq = IsInt int | IsSeq "int list"

text \<open>
  The attributes set by the constructors. \<^verbatim>\<open>AdjEncoding\<close> adds \<^verbatim>\<open>normalization\<close> to the
  two attributes of \<^verbatim>\<open>PositionEncoding\<close>; \<^verbatim>\<open>DiffusionEncoding\<close> has these and three
  more, \<^verbatim>\<open>PStepRWEncoding\<close> has those of \<^verbatim>\<open>DiffusionEncoding\<close> and \<^verbatim>\<open>p\<close>. The records are
  chained in this order so that every attribute keeps the name it has in the source; in
  the source all four classes derive from \<^verbatim>\<open>PositionEncoding\<close> directly.
  \<^verbatim>\<open>normalization\<close> is \<^verbatim>\<open>None\<close> or a string.
\<close>

record PositionEncoding =
  savepath :: "string option"
  zero_diag :: bool

record AdjEncoding = PositionEncoding +
  normalization :: "string option"

record DiffusionEncoding = AdjEncoding +
  beta :: real
  use_edge_attr :: bool
  num_edge_features :: int_or_seq

record PStepRWEncoding = DiffusionEncoding +
  p :: int

text \<open>
  \<^verbatim>\<open>self.num_edge_features_true\<close> is computed once by the constructor from
  \<^verbatim>\<open>num_edge_features\<close>, which is never reassigned: the model computes it on demand.
\<close>

definition num_edge_features_true :: "'a DiffusionEncoding_scheme \<Rightarrow> int" where
  "num_edge_features_true self =
     (case num_edge_features self of IsInt n \<Rightarrow> n | IsSeq ns \<Rightarrow> sum_list ns)"

subsection \<open>Dense matrices (NumPy, SciPy)\<close>

definition identity :: "nat \<Rightarrow> matrix" where
  "identity n = map (\<lambda>i. map (\<lambda>j. if i = j then 1 else 0) [0..<n]) [0..<n]"

definition scale :: "real \<Rightarrow> matrix \<Rightarrow> matrix" where
  "scale b A = map (map (\<lambda>x. b * x)) A"

definition mat_sub :: "matrix \<Rightarrow> matrix \<Rightarrow> matrix" where
  "mat_sub A B = map2 (map2 (-)) A B"

text \<open>
  \<^verbatim>\<open>A.dot(B)\<close>, the matrix product; it is only ever applied to two square matrices of
  the same size.
\<close>

definition dot :: "matrix \<Rightarrow> matrix \<Rightarrow> matrix" where
  "dot A B =
     map (\<lambda>row. map (\<lambda>j. \<Sum>k\<leftarrow>[0..<length B]. row ! k * B ! k ! j) [0..<length B]) A"

definition square :: "nat \<Rightarrow> matrix \<Rightarrow> bool" where
  "square n A \<longleftrightarrow> length A = n \<and> (\<forall>r \<in> set A. length r = n)"

text \<open>The \<open>n\<close>-th power of a square matrix, as mathematics defines it.\<close>

fun mat_pow :: "matrix \<Rightarrow> nat \<Rightarrow> matrix" where
  "mat_pow M 0 = identity (length M)"
| "mat_pow M (Suc n) = dot M (mat_pow M n)"

subsection \<open>The Laplacian (torch\_geometric)\<close>

text \<open>
  A sparse matrix in coordinate form is a list of entries \<open>((row, col), value)\<close>; entries
  at the same position add up when the matrix is converted (\<^verbatim>\<open>tocsc\<close>, \<^verbatim>\<open>toarray\<close>).
\<close>

type_synonym coo = "((nat \<times> nat) \<times> real) list"

definition remove_self_loops :: "(nat \<times> nat) list \<Rightarrow> real list \<Rightarrow> coo" where
  "remove_self_loops ei ew = filter (\<lambda>(e, w). fst e \<noteq> snd e) (zip ei ew)"

definition degree :: "coo \<Rightarrow> nat \<Rightarrow> real" where
  "degree es i = sum_list (map snd (filter (\<lambda>(e, w). fst e = i) es))"

text \<open>
  \<^verbatim>\<open>get_laplacian(edge_index, edge_weight, normalization, num_nodes)\<close>:
  \<^item> asserts that \<^verbatim>\<open>normalization\<close> is \<^verbatim>\<open>None\<close>, \<^verbatim>\<open>'sym'\<close> or \<^verbatim>\<open>'rw'\<close>;
  \<^item> removes the self-loops; a weight vector must have one entry per edge;
  \<^item> weights default to 1;
  \<^item> the degree of a node adds the weights of the edges leaving it
    (\<^verbatim>\<open>scatter_add\<close> over the row index, which must be below \<^verbatim>\<open>num_nodes\<close>);
  \<^item> \<^verbatim>\<open>None\<close>: \<open>L = D - A\<close>; \<^verbatim>\<open>'sym'\<close>: \<open>L = I - D\<^sup>-\<^sup>1\<^sup>/\<^sup>2 A D\<^sup>-\<^sup>1\<^sup>/\<^sup>2\<close>;
    \<^verbatim>\<open>'rw'\<close>: \<open>L = I - D\<^sup>-\<^sup>1 A\<close>, where an infinite inverse degree is replaced by 0;
    the diagonal is appended as one self-loop per node.
\<close>

text \<open>
  \<^verbatim>\<open>deg.pow_(-0.5)\<close> with the infinite entries (degree 0) replaced by 0, and likewise
  \<^verbatim>\<open>1.0 / deg\<close>. The square root has no code equation.
\<close>

definition deg_inv_sqrt :: "real \<Rightarrow> real" where
  [code del]: "deg_inv_sqrt d = (if d = 0 then 0 else 1 / sqrt d)"

definition deg_inv :: "real \<Rightarrow> real" where
  "deg_inv d = (if d = 0 then 0 else 1 / d)"

definition get_laplacian ::
  "(nat \<times> nat) list \<Rightarrow> real list option \<Rightarrow> string option \<Rightarrow> nat \<Rightarrow> error + coo" where
  "get_laplacian ei edge_weight nrm n =
     (if nrm \<noteq> None \<and> nrm \<noteq> Some ''sym'' \<and> nrm \<noteq> Some ''rw'' then Inl AssertionError
      else if (case edge_weight of None \<Rightarrow> False | Some w \<Rightarrow> length w \<noteq> length ei)
        then Inl IndexError
      else
        let es = remove_self_loops ei
                   (case edge_weight of None \<Rightarrow> replicate (length ei) 1 | Some w \<Rightarrow> w);
            deg = degree es
        in if list_ex (\<lambda>(e, w). n \<le> fst e) es then Inl RuntimeError
           else if nrm = None then
             Inr (map (\<lambda>(e, w). (e, - w)) es @ map (\<lambda>i. ((i, i), deg i)) [0..<n])
           else if nrm = Some ''sym'' then
             (if list_ex (\<lambda>(e, w). n \<le> snd e) es then Inl IndexError
              else
                Inr (map (\<lambda>(e, w).
                            (e, - (deg_inv_sqrt (deg (fst e)) * w * deg_inv_sqrt (deg (snd e))))) es
                     @ map (\<lambda>i. ((i, i), 1)) [0..<n]))
           else
             Inr (map (\<lambda>(e, w). (e, - (deg_inv (deg (fst e)) * w))) es
                  @ map (\<lambda>i. ((i, i), 1)) [0..<n]))"

text \<open>
  \<^verbatim>\<open>to_scipy_sparse_matrix(edge_index, edge_weight)\<close> is called without \<^verbatim>\<open>num_nodes\<close>: the
  size is one more than the largest index that occurs, 0 for no entry at all.
\<close>

definition maybe_num_nodes :: "(nat \<times> nat) list \<Rightarrow> nat" where
  "maybe_num_nodes ei =
     (if ei = [] then 0 else Suc (fold max (map fst ei @ map snd ei) 0))"

definition entry :: "coo \<Rightarrow> nat \<Rightarrow> nat \<Rightarrow> real" where
  "entry es i j = sum_list (map snd (filter (\<lambda>(e, w). e = (i, j)) es))"

definition toarray :: "nat \<Rightarrow> coo \<Rightarrow> matrix" where
  "toarray n es = map (\<lambda>i. map (\<lambda>j. entry es i j) [0..<n]) [0..<n]"

definition to_scipy_sparse_matrix :: "coo \<Rightarrow> matrix" where
  "to_scipy_sparse_matrix es = toarray (maybe_num_nodes (map fst es)) es"

text \<open>
  Lines 121 to 124 (and 87 to 90, 165 to 168): the Laplacian as a dense matrix.
\<close>

definition laplacian ::
  "(nat \<times> nat) list \<Rightarrow> real list option \<Rightarrow> string option \<Rightarrow> nat \<Rightarrow> error + matrix" where
  "laplacian ei edge_weight nrm n =
     (case get_laplacian ei edge_weight nrm n of
        Inl e \<Rightarrow> Inl e
      | Inr lap \<Rightarrow> Inr (to_scipy_sparse_matrix lap))"

text \<open>
  Well-formed input: the graph has a node (\<^verbatim>\<open>num_nodes\<close> is positive), both endpoints of
  every edge are nodes of the graph, the normalization is one of the three recognised
  values, and a weight vector has one entry per edge.
\<close>

definition wf_edges :: "nat \<Rightarrow> (nat \<times> nat) list \<Rightarrow> bool" where
  "wf_edges n ei \<longleftrightarrow> 0 < n \<and> list_all (\<lambda>e. fst e < n \<and> snd e < n) ei"

definition valid_normalization :: "string option \<Rightarrow> bool" where
  "valid_normalization nrm \<longleftrightarrow> nrm = None \<or> nrm = Some ''sym'' \<or> nrm = Some ''rw''"

definition edge_weight_ok :: "(nat \<times> nat) list \<Rightarrow> real list option \<Rightarrow> bool" where
  "edge_weight_ok ei edge_weight \<longleftrightarrow>
     (case edge_weight of None \<Rightarrow> True | Some w \<Rightarrow> length w = length ei)"

subsection \<open>\<^verbatim>\<open>PStepRWEncoding.compute_pe_from_edge_weight\<close>\<close>

text \<open>
  The matrix \<^verbatim>\<open>L\<close> after line 125, \<^verbatim>\<open>sp.identity(L.shape[0]) - self.beta * L\<close>.
\<close>

definition pstep_base ::
  "'a PStepRWEncoding_scheme \<Rightarrow> (nat \<times> nat) list \<Rightarrow> real list option \<Rightarrow> nat \<Rightarrow> error + matrix" where
  "pstep_base self ei edge_weight n =
     (case laplacian ei edge_weight (normalization self) n of
        Inl e \<Rightarrow> Inl e
      | Inr L \<Rightarrow> Inr (mat_sub (identity (length L)) (scale (beta self) L)))"

text \<open>
  The loop \<^verbatim>\<open>for _ in range(self.p - 1): tmp = tmp.dot(L)\<close>, by recursion on the number
  of iterations left. The second component of the state is a ghost counter of the calls
  of \<^verbatim>\<open>dot\<close>; the source has no such variable.
\<close>

fun pstep_loop :: "matrix \<Rightarrow> nat \<Rightarrow> matrix \<times> nat \<Rightarrow> matrix \<times> nat" where
  "pstep_loop L 0 (tmp, c) = (tmp, c)"
| "pstep_loop L (Suc k) (tmp, c) = pstep_loop L k (dot tmp L, Suc c)"

text \<open>\<^verbatim>\<open>range(n)\<close> runs \<open>nat n\<close> times: not at all for \<open>n \<le> 0\<close>.\<close>

definition pstep_run ::
  "'a PStepRWEncoding_scheme \<Rightarrow> (nat \<times> nat) list \<Rightarrow> real list option \<Rightarrow> nat
     \<Rightarrow> error + matrix \<times> nat" where
  "pstep_run self ei edge_weight n =
     (case pstep_base self ei edge_weight n of
        Inl e \<Rightarrow> Inl e
      | Inr L \<Rightarrow> Inr (pstep_loop L (nat (p self - 1)) (L, 0)))"

text \<open>
  The result is a tensor of rank 2 (\<^verbatim>\<open>torch.from_numpy(tmp.toarray())\<close>); \<^verbatim>\<open>compute_pe\<close>
  below wraps it as \<open>Mat\<close> or stacks it into a \<open>Cube\<close>.
\<close>

definition PStepRWEncoding_compute_pe_from_edge_weight ::
  "'a PStepRWEncoding_scheme \<Rightarrow> (nat \<times> nat) list \<Rightarrow> real list option \<Rightarrow> nat \<Rightarrow> error + matrix" where
  "PStepRWEncoding_compute_pe_from_edge_weight self ei edge_weight n =
     (case pstep_run self ei edge_weight n of
        Inl e \<Rightarrow> Inl e
      | Inr (tmp, c) \<Rightarrow> Inr tmp)"

subsection \<open>\<^verbatim>\<open>DiffusionEncoding.compute_pe_from_edge_weight\<close>\<close>

text \<open>
  \<^verbatim>\<open>expm\<close> is SciPy's matrix exponential. It is a parameter of the model: no property
  proved here depends on its values.
\<close>

definition DiffusionEncoding_compute_pe_from_edge_weight ::
  "(matrix \<Rightarrow> matrix) \<Rightarrow> 'a DiffusionEncoding_scheme \<Rightarrow> (nat \<times> nat) list \<Rightarrow> real list option
     \<Rightarrow> nat \<Rightarrow> error + matrix" where
  "DiffusionEncoding_compute_pe_from_edge_weight expm self ei edge_weight n =
     (case laplacian ei edge_weight (normalization self) n of
        Inl e \<Rightarrow> Inl e
      | Inr L \<Rightarrow> Inr (expm (scale (- beta self) L)))"

subsection \<open>\<^verbatim>\<open>edge_attr_one_hot\<close>\<close>

text \<open>
  \<^verbatim>\<open>F.one_hot(t, num_classes)\<close> checks the codes of the whole tensor \<open>t\<close>:
  \<^item> an empty tensor is accepted only with a positive \<^verbatim>\<open>num_classes\<close>;
  \<^item> a negative code is an error;
  \<^item> \<^verbatim>\<open>num_classes = -1\<close> stands for one more than the largest code;
  \<^item> otherwise every code must be below \<^verbatim>\<open>num_classes\<close>.
  It returns the number of classes, the length of every one-hot vector.
\<close>

definition one_hot_classes :: "int list \<Rightarrow> int \<Rightarrow> error + nat" where
  "one_hot_classes codes n =
     (if codes = [] then (if n \<le> 0 then Inl RuntimeError else Inr (nat n))
      else if list_ex (\<lambda>c. c < 0) codes then Inl RuntimeError
      else if n = - 1 then Inr (nat (fold max codes 0 + 1))
      else if list_ex (\<lambda>c. n \<le> c) codes then Inl RuntimeError
      else Inr (nat n))"

definition one_hot_row :: "nat \<Rightarrow> int \<Rightarrow> int list" where
  "one_hot_row k c = map (\<lambda>j. if int j = c then 1 else 0) [0..<k]"

text \<open>\<^verbatim>\<open>F.one_hot\<close> of a vector of codes: a matrix with one row per code.\<close>

definition one_hot :: "int list \<Rightarrow> int \<Rightarrow> error + int list list" where
  "one_hot codes n =
     (case one_hot_classes codes n of
        Inl e \<Rightarrow> Inl e
      | Inr k \<Rightarrow> Inr (map (one_hot_row k) codes))"

text \<open>
  The loop of lines 191 to 193 from column \<open>col\<close> on: \<^verbatim>\<open>edge_attr[:, col]\<close> needs a tensor
  with more than \<open>col\<close> columns.
\<close>

fun one_hot_columns :: "int_tensor option \<Rightarrow> int list \<Rightarrow> nat \<Rightarrow> error + int list list list" where
  "one_hot_columns ea [] col = Inr []"
| "one_hot_columns ea (n # ns) col =
     (case ea of
        None \<Rightarrow> Inl TypeError
      | Some t \<Rightarrow>
          if cols t \<le> col then Inl IndexError
          else
            (case one_hot (map (\<lambda>r. r ! col) (rows t)) n of
               Inl e \<Rightarrow> Inl e
             | Inr one_hot_feat \<Rightarrow>
                 (case one_hot_columns ea ns (Suc col) of
                    Inl e \<Rightarrow> Inl e
                  | Inr rest \<Rightarrow> Inr (one_hot_feat # rest))))"

text \<open>\<^verbatim>\<open>torch.cat(ms, dim=1)\<close>: an empty list is an error.\<close>

definition cat1 :: "int list list list \<Rightarrow> error + int list list" where
  "cat1 ms =
     (case ms of
        [] \<Rightarrow> Inl RuntimeError
      | m # _ \<Rightarrow> Inr (map (\<lambda>e. concat (map (\<lambda>m. m ! e) ms)) [0..<length m]))"

text \<open>
  With an \<^verbatim>\<open>int\<close> the whole tensor \<^verbatim>\<open>edge_attr - 1\<close> is encoded, which adds a dimension:
  the result has rank 3. With a sequence the columns are encoded one by one and
  concatenated: the result has rank 2. \<^verbatim>\<open>.float()\<close> converts the entries.
\<close>

definition edge_attr_one_hot :: "int_tensor option \<Rightarrow> int_or_seq \<Rightarrow> error + tensor" where
  "edge_attr_one_hot ea nef =
     (case nef of
        IsInt n \<Rightarrow>
          (case ea of
             None \<Rightarrow> Inl TypeError
           | Some t \<Rightarrow>
               let shifted = map (map (\<lambda>c. c - 1)) (rows t)
               in (case one_hot_classes (concat shifted) n of
                     Inl e \<Rightarrow> Inl e
                   | Inr k \<Rightarrow>
                       Inr (Cube (map (map (\<lambda>c. map real_of_int (one_hot_row k c))) shifted))))
      | IsSeq ns \<Rightarrow>
          (case one_hot_columns ea ns 0 of
             Inl e \<Rightarrow> Inl e
           | Inr all_one_hot_feat \<Rightarrow>
               (case cat1 all_one_hot_feat of
                  Inl e \<Rightarrow> Inl e
                | Inr m \<Rightarrow> Inr (Mat (map (map real_of_int) m)))))"

text \<open>An integer tensor is a list of rows of one length, the number of its columns.\<close>

definition wf_int_tensor :: "int_tensor \<Rightarrow> bool" where
  "wf_int_tensor t \<longleftrightarrow> list_all (\<lambda>r. length r = cols t) (rows t)"

subsection \<open>\<^verbatim>\<open>compute_pe\<close> of \<^verbatim>\<open>DiffusionEncoding\<close> and \<^verbatim>\<open>PStepRWEncoding\<close>\<close>

text \<open>
  \<^verbatim>\<open>edge_attr_list[:, i]\<close> as the edge weight of channel \<open>i\<close>.
  \<^item> From a tensor of rank 2 it is column \<open>i\<close>, a vector.
  \<^item> From a tensor of rank 3 (shape \<open>[E, F, k]\<close>, the \<^verbatim>\<open>int\<close> mode) it is an \<open>[E, k]\<close>
    matrix, for \<open>i < F\<close>. \<^verbatim>\<open>get_laplacian\<close> takes it as it takes a vector;
    \<^verbatim>\<open>to_scipy_sparse_matrix\<close> then flattens the weights and asserts that there is one per
    entry, which holds for \<open>k = 1\<close> only. \<open>k\<close> is read off the tensor, and is the
    configured number of classes when the tensor has no row.
\<close>

definition channel_weight ::
  "'a DiffusionEncoding_scheme \<Rightarrow> graph \<Rightarrow> tensor \<Rightarrow> nat \<Rightarrow> error + real list" where
  "channel_weight self g edge_attr_list i =
     (case edge_attr_list of
        Mat m \<Rightarrow>
          if list_all (\<lambda>r. i < length r) m then Inr (map (\<lambda>r. r ! i) m) else Inl IndexError
      | Cube c \<Rightarrow>
          if (case edge_attr g of None \<Rightarrow> 0 | Some t \<Rightarrow> cols t) \<le> i then Inl IndexError
          else
            let w = map (\<lambda>r. r ! i) c;
                k = (case w of [] \<Rightarrow> nat (num_edge_features_true self) | r # _ \<Rightarrow> length r)
            in if k = 1 then Inr (map (\<lambda>r. r ! 0) w)
               else
                 (case get_laplacian (edge_index g) (Some (map (\<lambda>r. 0) w))
                         (normalization self) (num_nodes g) of
                    Inl e \<Rightarrow> Inl e
                  | Inr _ \<Rightarrow> Inl AssertionError))"

text \<open>
  The loop of lines 79 to 82 over the channels \<open>is\<close>. \<^verbatim>\<open>pe_tensors\<close> was allocated with
  shape \<open>[C, N, N]\<close>, so the assignment \<^verbatim>\<open>pe_tensors[i] = pe_i\<close> needs an \<open>N \<times> N\<close> matrix.
\<close>

fun pe_channels :: "(nat \<Rightarrow> error + matrix) \<Rightarrow> nat \<Rightarrow> nat list \<Rightarrow> error + matrix list" where
  "pe_channels chan n [] = Inr []"
| "pe_channels chan n (i # is) =
     (case chan i of
        Inl e \<Rightarrow> Inl e
      | Inr pe_i \<Rightarrow>
          if square n pe_i then
            (case pe_channels chan n is of
               Inl e \<Rightarrow> Inl e
             | Inr rest \<Rightarrow> Inr (pe_i # rest))
          else Inl RuntimeError)"

text \<open>
  The two classes have the same \<^verbatim>\<open>compute_pe\<close>, line for line; the model has it once,
  with the class's \<^verbatim>\<open>compute_pe_from_edge_weight\<close> as its first argument.
  \<^verbatim>\<open>torch.zeros\<close> rejects a negative size.
\<close>

definition compute_pe_body ::
  "((nat \<times> nat) list \<Rightarrow> real list option \<Rightarrow> nat \<Rightarrow> error + matrix)
     \<Rightarrow> 'a DiffusionEncoding_scheme \<Rightarrow> graph \<Rightarrow> error + tensor" where
  "compute_pe_body compute_pe_from_edge_weight self g =
     (if use_edge_attr self then
        (case edge_attr_one_hot (edge_attr g) (num_edge_features self) of
           Inl e \<Rightarrow> Inl e
         | Inr edge_attr_list \<Rightarrow>
             if num_edge_features_true self < 0 then Inl RuntimeError
             else
               (case pe_channels
                       (\<lambda>i. case channel_weight self g edge_attr_list i of
                              Inl e \<Rightarrow> Inl e
                            | Inr w \<Rightarrow>
                                compute_pe_from_edge_weight (edge_index g) (Some w) (num_nodes g))
                       (num_nodes g) [0..<nat (num_edge_features_true self)] of
                  Inl e \<Rightarrow> Inl e
                | Inr pe_tensors \<Rightarrow> Inr (Cube pe_tensors)))
      else
        (case compute_pe_from_edge_weight (edge_index g) None (num_nodes g) of
           Inl e \<Rightarrow> Inl e
         | Inr pe \<Rightarrow> Inr (Mat pe)))"

definition DiffusionEncoding_compute_pe ::
  "(matrix \<Rightarrow> matrix) \<Rightarrow> 'a DiffusionEncoding_scheme \<Rightarrow> graph \<Rightarrow> error + tensor" where
  "DiffusionEncoding_compute_pe expm self g =
     compute_pe_body (DiffusionEncoding_compute_pe_from_edge_weight expm self) self g"

definition PStepRWEncoding_compute_pe ::
  "'a PStepRWEncoding_scheme \<Rightarrow> graph \<Rightarrow> error + tensor" where
  "PStepRWEncoding_compute_pe self g =
     compute_pe_body (PStepRWEncoding_compute_pe_from_edge_weight self) self g"

subsection \<open>\<^verbatim>\<open>AdjEncoding.compute_pe\<close> and \<^verbatim>\<open>FullEncoding.compute_pe\<close>\<close>

text \<open>
  \<^verbatim>\<open>to_dense_adj(edge_index)\<close> of torch\_geometric returns a batch of adjacency matrices,
  a tensor of shape \<open>[B, n, n]\<close>. Without a batch vector all nodes are in one graph
  (\<open>B = 1\<close>) and \<open>n\<close> is one more than the largest index in \<^verbatim>\<open>edge_index\<close>. Entry
  \<open>(i, j)\<close> adds up a 1 for every edge from \<open>i\<close> to \<open>j\<close>.
\<close>

definition to_dense_adj :: "(nat \<times> nat) list \<Rightarrow> tensor" where
  "to_dense_adj ei =
     (let n = maybe_num_nodes ei
      in Cube [map (\<lambda>i. map (\<lambda>j. real (count_list ei (i, j))) [0..<n]) [0..<n]])"

definition AdjEncoding_compute_pe :: "'a AdjEncoding_scheme \<Rightarrow> graph \<Rightarrow> error + tensor" where
  "AdjEncoding_compute_pe self g = Inr (to_dense_adj (edge_index g))"

definition FullEncoding_compute_pe :: "'a PositionEncoding_scheme \<Rightarrow> graph \<Rightarrow> error + tensor" where
  "FullEncoding_compute_pe self g =
     Inr (Mat (replicate (num_nodes g) (replicate (num_nodes g) 1)))"

subsection \<open>Zeroing a diagonal in place (torch)\<close>

text \<open>
  \<^verbatim>\<open>t.diagonal(dim1=a, dim2=b)\<close> is a view of the entries of \<open>t\<close> whose indices in the
  dimensions \<open>a\<close> and \<open>b\<close> agree; assigning to it writes into \<open>t\<close>. The defaults are
  \<open>a = 0\<close> and \<open>b = 1\<close>. A dimension that the tensor does not have is an \<^verbatim>\<open>IndexError\<close>.
\<close>

definition zero_diagonal :: "matrix \<Rightarrow> matrix" where
  "zero_diagonal m = map (\<lambda>i. (m ! i)[i := 0]) [0..<length m]"

text \<open>\<^verbatim>\<open>pe.diagonal()[:] = 0\<close>: in a tensor of rank 3 the entries \<open>pe[i, i, k]\<close> for all \<open>k\<close>.\<close>

definition diagonal_01_zero :: "tensor \<Rightarrow> error + tensor" where
  "diagonal_01_zero t =
     (case t of
        Mat m \<Rightarrow> Inr (Mat (zero_diagonal m))
      | Cube c \<Rightarrow>
          Inr (Cube (map (\<lambda>i. (c ! i)[i := map (\<lambda>x. 0) (c ! i ! i)]) [0..<length c])))"

text \<open>\<^verbatim>\<open>pe.diagonal(dim1=1, dim2=2)[:] = 0\<close>: the entries \<open>pe[c, i, i]\<close>.\<close>

definition diagonal_12_zero :: "tensor \<Rightarrow> error + tensor" where
  "diagonal_12_zero t =
     (case t of
        Mat m \<Rightarrow> Inl IndexError
      | Cube c \<Rightarrow> Inr (Cube (map zero_diagonal c)))"

subsection \<open>Objects and files\<close>

text \<open>
  Tensors are objects: \<^verbatim>\<open>all_pe\<close> and \<^verbatim>\<open>dataset.pe_list\<close> hold references, and
  \<^verbatim>\<open>apply_to\<close> writes into a tensor in place. The heap is the list of all tensors
  allocated so far and a reference is a position in it. A file holds the pickle of a list
  of tensors or some other bytes, which \<^verbatim>\<open>pickle.load\<close> rejects; errors of the file
  system itself (a path that cannot be written) are not modelled.
\<close>

datatype file_content = Pickle "tensor list" | Corrupt "nat list"

record world =
  heap :: "tensor list"
  files :: "string \<rightharpoonup> file_content"

record dataset =
  graphs :: "graph list"
  pe_list :: "nat list option"
  lap_pe_list :: "nat list option"
  lap_pe_dim :: "int option"

definition deref :: "tensor list \<Rightarrow> nat list \<Rightarrow> tensor list" where
  "deref h refs = map (\<lambda>r. h ! r) refs"

subsection \<open>\<^verbatim>\<open>PositionEncoding.load\<close>, \<^verbatim>\<open>save\<close> and \<^verbatim>\<open>apply_to\<close>\<close>

definition cache_path :: "string \<Rightarrow> string \<Rightarrow> string" where
  "cache_path sp split = sp @ ''.'' @ split"

text \<open>\<^verbatim>\<open>pickle.load\<close> allocates the tensors of the list it returns.\<close>

definition load ::
  "'a PositionEncoding_scheme \<Rightarrow> string \<Rightarrow> world \<Rightarrow> (error + nat list option) \<times> world" where
  "load self split w =
     (case savepath self of
        None \<Rightarrow> (Inr None, w)
      | Some sp \<Rightarrow>
          (case files w (cache_path sp split) of
             None \<Rightarrow> (Inr None, w)
           | Some (Corrupt bs) \<Rightarrow> (Inl UnpicklingError, w)
           | Some (Pickle ts) \<Rightarrow>
               (Inr (Some [length (heap w)..<length (heap w) + length ts]),
                w\<lparr>heap := heap w @ ts\<rparr>)))"

text \<open>\<^verbatim>\<open>pickle.dump\<close> writes the tensors as they are when it is called.\<close>

definition save :: "'a PositionEncoding_scheme \<Rightarrow> nat list \<Rightarrow> string \<Rightarrow> world \<Rightarrow> world" where
  "save self pos_enc split w =
     (case savepath self of
        None \<Rightarrow> w
      | Some sp \<Rightarrow>
          if files w (cache_path sp split) = None
          then w\<lparr>files := (files w)(cache_path sp split \<mapsto> Pickle (deref (heap w) pos_enc))\<rparr>
          else w)"

text \<open>
  One iteration of the loop of \<^verbatim>\<open>apply_to\<close> (lines 22 to 33) on the state
  \<open>(heap, all_pe, dataset.pe_list)\<close>. \<open>compute_pe\<close> is the method of the class of
  \<^verbatim>\<open>self\<close> and \<open>edge_attr_flag\<close> evaluates
  \<^verbatim>\<open>hasattr(self, "use_edge_attr") and self.use_edge_attr\<close>. The result is the exception
  raised, if any, and the state reached.
\<close>

type_synonym loop_state = "tensor list \<times> nat list \<times> nat list"

definition apply_to_step ::
  "('a PositionEncoding_scheme \<Rightarrow> graph \<Rightarrow> error + tensor) \<Rightarrow> ('a PositionEncoding_scheme \<Rightarrow> bool)
     \<Rightarrow> 'a PositionEncoding_scheme \<Rightarrow> nat list option \<Rightarrow> nat \<times> graph \<Rightarrow> loop_state
     \<Rightarrow> error option \<times> loop_state" where
  "apply_to_step compute_pe edge_attr_flag self saved_pos_enc ig s =
     (case s of (h, all_pe, pl) \<Rightarrow>
        (case (case saved_pos_enc of
                 None \<Rightarrow>
                   (case compute_pe self (snd ig) of
                      Inl e \<Rightarrow> Inl e
                    | Inr t \<Rightarrow> Inr (length h, h @ [t], all_pe @ [length h]))
               | Some refs \<Rightarrow>
                   if fst ig < length refs then Inr (refs ! fst ig, h, all_pe)
                   else Inl IndexError) of
           Inl e \<Rightarrow> (Some e, s)
         | Inr (pe, h1, all_pe1) \<Rightarrow>
             if zero_diag self then
               let clone = length h1; h2 = h1 @ [h1 ! pe]
               in (case (if edge_attr_flag self then diagonal_12_zero (h2 ! clone)
                         else diagonal_01_zero (h2 ! clone)) of
                     Inl e \<Rightarrow> (Some e, (h2, all_pe1, pl))
                   | Inr t \<Rightarrow> (None, (h2[clone := t], all_pe1, pl @ [clone])))
             else (None, (h1, all_pe1, pl @ [pe]))))"

fun apply_to_loop ::
  "('a PositionEncoding_scheme \<Rightarrow> graph \<Rightarrow> error + tensor) \<Rightarrow> ('a PositionEncoding_scheme \<Rightarrow> bool)
     \<Rightarrow> 'a PositionEncoding_scheme \<Rightarrow> nat list option \<Rightarrow> (nat \<times> graph) list \<Rightarrow> loop_state
     \<Rightarrow> error option \<times> loop_state" where
  "apply_to_loop compute_pe edge_attr_flag self saved_pos_enc [] s = (None, s)"
| "apply_to_loop compute_pe edge_attr_flag self saved_pos_enc (ig # rest) s =
     (case apply_to_step compute_pe edge_attr_flag self saved_pos_enc ig s of
        (Some e, s') \<Rightarrow> (Some e, s')
      | (None, s') \<Rightarrow> apply_to_loop compute_pe edge_attr_flag self saved_pos_enc rest s')"

text \<open>
  \<^verbatim>\<open>apply_to\<close> returns the exception raised, if any, the dataset and the world as they
  are then. \<^verbatim>\<open>dataset.pe_list\<close> is assigned after \<^verbatim>\<open>load\<close> and grows in the loop.
\<close>

definition apply_to ::
  "('a PositionEncoding_scheme \<Rightarrow> graph \<Rightarrow> error + tensor) \<Rightarrow> ('a PositionEncoding_scheme \<Rightarrow> bool)
     \<Rightarrow> 'a PositionEncoding_scheme \<Rightarrow> dataset \<Rightarrow> string \<Rightarrow> world
     \<Rightarrow> error option \<times> dataset \<times> world" where
  "apply_to compute_pe edge_attr_flag self dataset split w =
     (case load self split w of
        (Inl e, w1) \<Rightarrow> (Some e, dataset, w1)
      | (Inr saved_pos_enc, w1) \<Rightarrow>
          (case apply_to_loop compute_pe edge_attr_flag self saved_pos_enc
                  (enumerate 0 (graphs dataset)) (heap w1, [], []) of
             (Some e, (h, all_pe, pl)) \<Rightarrow>
               (Some e, dataset\<lparr>pe_list := Some pl\<rparr>, w1\<lparr>heap := h\<rparr>)
           | (None, (h, all_pe, pl)) \<Rightarrow>
               (None, dataset\<lparr>pe_list := Some pl\<rparr>, save self all_pe split (w1\<lparr>heap := h\<rparr>))))"

text \<open>
  The four classes that inherit \<^verbatim>\<open>apply_to\<close>. \<^verbatim>\<open>AdjEncoding\<close> and \<^verbatim>\<open>FullEncoding\<close> have
  no attribute \<^verbatim>\<open>use_edge_attr\<close>.
\<close>

definition DiffusionEncoding_apply_to ::
  "(matrix \<Rightarrow> matrix) \<Rightarrow> 'a DiffusionEncoding_scheme \<Rightarrow> dataset \<Rightarrow> string \<Rightarrow> world
     \<Rightarrow> error option \<times> dataset \<times> world" where
  "DiffusionEncoding_apply_to expm = apply_to (DiffusionEncoding_compute_pe expm) use_edge_attr"

definition PStepRWEncoding_apply_to ::
  "'a PStepRWEncoding_scheme \<Rightarrow> dataset \<Rightarrow> string \<Rightarrow> world \<Rightarrow> error option \<times> dataset \<times> world" where
  "PStepRWEncoding_apply_to = apply_to PStepRWEncoding_compute_pe use_edge_attr"

definition AdjEncoding_apply_to ::
  "'a AdjEncoding_scheme \<Rightarrow> dataset \<Rightarrow> string \<Rightarrow> world \<Rightarrow> error option \<times> dataset \<times> world" where
  "AdjEncoding_apply_to = apply_to AdjEncoding_compute_pe (\<lambda>self. False)"

definition FullEncoding_apply_to ::
  "'a PositionEncoding_scheme \<Rightarrow> dataset \<Rightarrow> string \<Rightarrow> world \<Rightarrow> error option \<times> dataset \<times> world" where
  "FullEncoding_apply_to = apply_to FullEncoding_compute_pe (\<lambda>self. False)"

text \<open>The tensors that \<^verbatim>\<open>dataset.pe_list\<close> refers to.\<close>

definition pe_values :: "dataset \<times> world \<Rightarrow> tensor list option" where
  "pe_values dw = map_option (deref (heap (snd dw))) (pe_list (fst dw))"

text \<open>
  The masking of lines 27 to 32 as a function of the tensor's value: what the copy
  appended to \<^verbatim>\<open>dataset.pe_list\<close> holds.
\<close>

definition zero_diag_mask ::
  "('a PositionEncoding_scheme \<Rightarrow> bool) \<Rightarrow> 'a PositionEncoding_scheme \<Rightarrow> tensor \<Rightarrow> error + tensor" where
  "zero_diag_mask edge_attr_flag self t =
     (if zero_diag self then
        (if edge_attr_flag self then diagonal_12_zero t else diagonal_01_zero t)
      else Inr t)"

subsection \<open>\<^verbatim>\<open>LapEncoding\<close>\<close>








subsection \<open>Predicates of the statements\<close>


text \<open>
  The row of \<^verbatim>\<open>edge_attr_list\<close> (sequence mode) for an edge whose attribute row is \<open>r\<close>:
  the one-hot vectors of the columns, one after the other.
\<close>

definition one_hot_features :: "int list \<Rightarrow> int list \<Rightarrow> real list" where
  "one_hot_features ns r =
     map real_of_int (concat (map (\<lambda>j. one_hot_row (nat (ns ! j)) (r ! j)) [0..<length ns]))"

text \<open>
  Sequence mode: a cardinality for every column, each positive, and every code of column
  \<open>j\<close> in \<open>[0, ns ! j)\<close>. Integer mode: a positive number of classes and every code in
  \<open>[1, n]\<close>.
\<close>

definition valid_codes :: "int_tensor \<Rightarrow> int list \<Rightarrow> bool" where
  "valid_codes t ns \<longleftrightarrow>
     wf_int_tensor t \<and> cols t = length ns \<and> ns \<noteq> [] \<and> list_all (\<lambda>k. 0 < k) ns \<and>
     list_all (\<lambda>r. list_all (\<lambda>j. 0 \<le> r ! j \<and> r ! j < ns ! j) [0..<length ns]) (rows t)"

definition valid_codes_int :: "int_tensor \<Rightarrow> int \<Rightarrow> bool" where
  "valid_codes_int t n \<longleftrightarrow>
     wf_int_tensor t \<and> 0 < n \<and> list_all (list_all (\<lambda>c. 1 \<le> c \<and> c \<le> n)) (rows t)"

text \<open>
  An encoder configured for edge attributes with the cardinalities \<open>ns\<close>, and a
  well-formed graph with one attribute row per edge.
\<close>

definition edge_attr_config :: "'a DiffusionEncoding_scheme \<Rightarrow> int list \<Rightarrow> bool" where
  "edge_attr_config self ns \<longleftrightarrow>
     use_edge_attr self \<and> num_edge_features self = IsSeq ns \<and>
     valid_normalization (normalization self)"

definition attributed_graph :: "graph \<Rightarrow> int_tensor \<Rightarrow> bool" where
  "attributed_graph g t \<longleftrightarrow>
     edge_attr g = Some t \<and> length (rows t) = length (edge_index g) \<and>
     wf_edges (num_nodes g) (edge_index g)"

subsection \<open>Example inputs\<close>

definition path3 :: "(nat \<times> nat) list" where
  "path3 = [(0, 1), (1, 0), (1, 2), (2, 1)]"

definition pstep_example :: "int \<Rightarrow> PStepRWEncoding" where
  "pstep_example k = \<lparr>savepath = None, zero_diag = False, normalization = None, beta = 1 / 2,
     use_edge_attr = False, num_edge_features = IsInt 4, p = k\<rparr>"

definition two_nodes :: graph where
  "two_nodes = \<lparr>num_nodes = 2, edge_index = [(0, 1), (1, 0)], edge_attr = None\<rparr>"

definition one_graph :: dataset where
  "one_graph = \<lparr>graphs = [two_nodes], pe_list = None, lap_pe_list = None, lap_pe_dim = None\<rparr>"

definition full_enc :: PositionEncoding where
  "full_enc = \<lparr>savepath = Some ''pe.pkl'', zero_diag = True\<rparr>"

definition adj_enc :: AdjEncoding where
  "adj_enc = \<lparr>savepath = Some ''pe.pkl'', zero_diag = True, normalization = None\<rparr>"

definition empty_world :: world where
  "empty_world = \<lparr>heap = [], files = Map.empty\<rparr>"

definition cached_world :: world where
  "cached_world = \<lparr>heap = [], files = [''pe.pkl.train'' \<mapsto> Pickle [Mat [[1, 1], [1, 1]]]]\<rparr>"

text \<open>A graph with a self-loop at node 1, and one whose last node has no edge.\<close>

definition loop_graph :: graph where
  "loop_graph = \<lparr>num_nodes = 2, edge_index = [(0, 1), (1, 0), (1, 1)], edge_attr = None\<rparr>"

definition loop_dataset :: dataset where
  "loop_dataset = \<lparr>graphs = [loop_graph], pe_list = None, lap_pe_list = None, lap_pe_dim = None\<rparr>"

definition isolated_graph :: graph where
  "isolated_graph = \<lparr>num_nodes = 3, edge_index = [(0, 1), (1, 0)], edge_attr = None\<rparr>"



text \<open>
  The path on three nodes with two bond features per edge, and encoders that use them
  with the cardinalities 4 and 6.
\<close>

definition bonds :: int_tensor where
  "bonds = \<lparr>cols = 2, rows = [[0, 2], [0, 2], [1, 0], [1, 0]]\<rparr>"

definition bond_graph :: graph where
  "bond_graph = \<lparr>num_nodes = 3, edge_index = path3, edge_attr = Some bonds\<rparr>"

definition pstep_bonds :: PStepRWEncoding where
  "pstep_bonds = \<lparr>savepath = None, zero_diag = False, normalization = None, beta = 1 / 2,
     use_edge_attr = True, num_edge_features = IsSeq [4, 6], p = 2\<rparr>"

definition diffusion_bonds :: DiffusionEncoding where
  "diffusion_bonds = \<lparr>savepath = None, zero_diag = False, normalization = None, beta = 1,
     use_edge_attr = True, num_edge_features = IsSeq [4, 6]\<rparr>"

definition bonds_from_one :: int_tensor where
  "bonds_from_one = \<lparr>cols = 2, rows = [[1, 3], [2, 1]]\<rparr>"

text \<open>
  The exponential series cut after its second term, \<open>I + A\<close>: a matrix function to put
  in the place of \<^verbatim>\<open>expm\<close> in an example.
\<close>

definition expm_order1 :: "matrix \<Rightarrow> matrix" where
  "expm_order1 A = mat_sub (identity (length A)) (scale (- 1) A)"

subsection \<open>Square matrices\<close>

lemma sum_list_upt: "(\<Sum>k\<leftarrow>[0..<n]. f k) = (\<Sum>k<n. (f k :: real))"
  by (simp add: interv_sum_list_conv_sum_set_nat atLeast0LessThan)

lemma square_length: "square n A \<Longrightarrow> length A = n"
  by (simp add: square_def)

lemma square_row: "square n A \<Longrightarrow> i < n \<Longrightarrow> length (A ! i) = n"
  by (simp add: square_def)

lemma square_eqI:
  assumes "square n A" "square n B" "\<And>i j. i < n \<Longrightarrow> j < n \<Longrightarrow> A ! i ! j = B ! i ! j"
  shows "A = B"
proof (rule nth_equalityI)
  show "length A = length B" using assms by (simp add: square_def)
next
  fix i assume i: "i < length A"
  then have "i < n" using assms(1) by (simp add: square_def)
  show "A ! i = B ! i"
  proof (rule nth_equalityI)
    show "length (A ! i) = length (B ! i)"
      using \<open>i < n\<close> assms by (simp add: square_row)
  next
    fix j assume "j < length (A ! i)"
    then have "j < n" using \<open>i < n\<close> assms(1) by (simp add: square_row)
    then show "A ! i ! j = B ! i ! j" using \<open>i < n\<close> assms(3) by simp
  qed
qed

lemma square_identity: "square n (identity n)"
  by (auto simp: square_def identity_def)

lemma identity_nth: "i < n \<Longrightarrow> j < n \<Longrightarrow> identity n ! i ! j = (if i = j then 1 else 0)"
  by (simp add: identity_def)

lemma square_scale: "square n A \<Longrightarrow> square n (scale b A)"
  by (auto simp: square_def scale_def)

lemma scale_nth: "square n A \<Longrightarrow> i < n \<Longrightarrow> j < n \<Longrightarrow> scale b A ! i ! j = b * A ! i ! j"
  by (simp add: scale_def square_def)

lemma square_mat_sub: "square n A \<Longrightarrow> square n B \<Longrightarrow> square n (mat_sub A B)"
  by (auto simp: square_def mat_sub_def set_zip)

lemma mat_sub_nth:
  "square n A \<Longrightarrow> square n B \<Longrightarrow> i < n \<Longrightarrow> j < n \<Longrightarrow> mat_sub A B ! i ! j = A ! i ! j - B ! i ! j"
  by (simp add: mat_sub_def square_def)

lemma square_dot: "square n A \<Longrightarrow> square n B \<Longrightarrow> square n (dot A B)"
  by (auto simp: square_def dot_def)

lemma dot_nth:
  "square n A \<Longrightarrow> square n B \<Longrightarrow> i < n \<Longrightarrow> j < n \<Longrightarrow>
     dot A B ! i ! j = (\<Sum>k<n. A ! i ! k * B ! k ! j)"
  by (simp add: dot_def square_def sum_list_upt)

lemma dot_assoc:
  assumes A: "square n A" and B: "square n B" and C: "square n C"
  shows "dot (dot A B) C = dot A (dot B C)"
proof (rule square_eqI [where n = n])
  show "square n (dot (dot A B) C)" using assms by (simp add: square_dot)
  show "square n (dot A (dot B C))" using assms by (simp add: square_dot)
next
  fix i j assume ij: "i < n" "j < n"
  have AB: "square n (dot A B)" and BC: "square n (dot B C)"
    using assms by (simp_all add: square_dot)
  have "dot (dot A B) C ! i ! j = (\<Sum>l<n. dot A B ! i ! l * C ! l ! j)"
    using AB C ij by (rule dot_nth)
  also have "\<dots> = (\<Sum>l<n. (\<Sum>k<n. A ! i ! k * B ! k ! l) * C ! l ! j)"
    using assms ij by (intro sum.cong refl) (simp add: dot_nth)
  also have "\<dots> = (\<Sum>l<n. \<Sum>k<n. A ! i ! k * (B ! k ! l * C ! l ! j))"
    by (simp add: sum_distrib_right mult.assoc)
  also have "\<dots> = (\<Sum>k<n. \<Sum>l<n. A ! i ! k * (B ! k ! l * C ! l ! j))"
    by (rule sum.swap)
  also have "\<dots> = (\<Sum>k<n. A ! i ! k * (\<Sum>l<n. B ! k ! l * C ! l ! j))"
    by (simp add: sum_distrib_left)
  also have "\<dots> = (\<Sum>k<n. A ! i ! k * dot B C ! k ! j)"
    using assms ij by (intro sum.cong refl) (simp add: dot_nth)
  also have "\<dots> = dot A (dot B C) ! i ! j"
    using dot_nth [OF A BC ij] by simp
  finally show "dot (dot A B) C ! i ! j = dot A (dot B C) ! i ! j" .
qed

lemma dot_identity_right:
  assumes A: "square n A" shows "dot A (identity n) = A"
proof (rule square_eqI [where n = n])
  show "square n (dot A (identity n))" using A by (simp add: square_dot square_identity)
  show "square n A" by fact
next
  fix i j assume ij: "i < n" "j < n"
  have "dot A (identity n) ! i ! j = (\<Sum>k<n. A ! i ! k * identity n ! k ! j)"
    using A ij by (simp add: dot_nth square_identity)
  also have "\<dots> = (\<Sum>k<n. A ! i ! k * (if k = j then 1 else 0))"
    using ij by (intro sum.cong refl) (simp add: identity_nth)
  also have "\<dots> = (\<Sum>k<n. if k = j then A ! i ! j else 0)"
    by (rule sum.cong) auto
  also have "\<dots> = A ! i ! j" using ij by simp
  finally show "dot A (identity n) ! i ! j = A ! i ! j" .
qed

lemma dot_identity_left:
  assumes A: "square n A" shows "dot (identity n) A = A"
proof (rule square_eqI [where n = n])
  show "square n (dot (identity n) A)" using A by (simp add: square_dot square_identity)
  show "square n A" by fact
next
  fix i j assume ij: "i < n" "j < n"
  have "dot (identity n) A ! i ! j = (\<Sum>k<n. identity n ! i ! k * A ! k ! j)"
    using A ij by (simp add: dot_nth square_identity)
  also have "\<dots> = (\<Sum>k<n. (if i = k then 1 else 0) * A ! k ! j)"
    using ij by (intro sum.cong refl) (simp add: identity_nth)
  also have "\<dots> = (\<Sum>k<n. if k = i then A ! i ! j else 0)"
    by (rule sum.cong) auto
  also have "\<dots> = A ! i ! j" using ij by simp
  finally show "dot (identity n) A ! i ! j = A ! i ! j" .
qed

lemma square_mat_pow: "square n M \<Longrightarrow> square n (mat_pow M k)"
  by (induction k) (auto simp: square_dot square_identity square_length)

lemma mat_pow_commute: "square n M \<Longrightarrow> dot (mat_pow M k) M = dot M (mat_pow M k)"
proof (induction k)
  case 0
  then show ?case by (simp add: square_length dot_identity_left dot_identity_right)
next
  case (Suc k)
  then show ?case by (simp add: dot_assoc square_mat_pow)
qed

subsection \<open>The loop of \<^verbatim>\<open>PStepRWEncoding\<close>\<close>

lemma pstep_loop_eq:
  "square n L \<Longrightarrow> pstep_loop L k (mat_pow L (Suc j), c) = (mat_pow L (Suc (j + k)), c + k)"
proof (induction k arbitrary: j c)
  case 0
  then show ?case by simp
next
  case (Suc k)
  have "dot (mat_pow L (Suc j)) L = mat_pow L (Suc (Suc j))"
    using Suc.prems mat_pow_commute [of n L "Suc j"] by simp
  then show ?case using Suc.IH [OF Suc.prems, of "Suc j" "Suc c"] by simp
qed

lemma pstep_loop_snoc:
  "pstep_loop L (Suc k) s = (case pstep_loop L k s of (tmp, c) \<Rightarrow> (dot tmp L, Suc c))"
proof (induction k arbitrary: s)
  case 0
  then show ?case by (cases s) simp
next
  case (Suc k)
  obtain tmp c where s: "s = (tmp, c)" by (cases s)
  show ?case
    unfolding s pstep_loop.simps(2) [of L "Suc k"]
    using Suc.IH [of "(dot tmp L, Suc c)"] by simp
qed

subsection \<open>The Laplacian of a well-formed graph\<close>

lemma fold_max_ge_init: "(m::nat) \<le> fold max xs m"
proof (induction xs arbitrary: m)
  case Nil
  show ?case by simp
next
  case (Cons x xs)
  have "m \<le> max x m" by simp
  also have "\<dots> \<le> fold max xs (max x m)" by (rule Cons.IH)
  finally show ?case by simp
qed

lemma fold_max_ge_elem: "x \<in> set xs \<Longrightarrow> (x::nat) \<le> fold max xs m"
proof (induction xs arbitrary: m)
  case Nil
  then show ?case by simp
next
  case (Cons y ys)
  show ?case
  proof (cases "x = y")
    case True
    have "x \<le> max y m" using True by simp
    also have "\<dots> \<le> fold max ys (max y m)" by (rule fold_max_ge_init)
    finally show ?thesis by simp
  next
    case False
    then have "x \<in> set ys" using Cons.prems by simp
    then show ?thesis using Cons.IH by simp
  qed
qed

lemma fold_max_le: "\<forall>x \<in> set xs. x \<le> b \<Longrightarrow> m \<le> b \<Longrightarrow> fold max xs m \<le> (b::nat)"
  by (induction xs arbitrary: m) auto

lemma remove_self_loops_wf:
  assumes "wf_edges n ei" and "(e, w) \<in> set (remove_self_loops ei ws)"
  shows "fst e < n \<and> snd e < n"
proof -
  have "e \<in> set ei" using assms(2) by (auto simp: remove_self_loops_def dest: set_zip_leftD)
  then show ?thesis using assms(1) by (auto simp: wf_edges_def list_all_iff)
qed

lemma get_laplacian_wf:
  assumes wf: "wf_edges n ei" and nv: "valid_normalization nrm" and wk: "edge_weight_ok ei ew"
  shows "\<exists>lap. get_laplacian ei ew nrm n = Inr lap
           \<and> (\<forall>x \<in> set lap. fst (fst x) < n \<and> snd (fst x) < n)
           \<and> (\<forall>i < n. \<exists>v. ((i, i), v) \<in> set lap)"
proof -
  define es where
    "es = remove_self_loops ei (case ew of None \<Rightarrow> replicate (length ei) 1 | Some w \<Rightarrow> w)"
  have in_es: "\<And>e w. (e, w) \<in> set es \<Longrightarrow> fst e < n \<and> snd e < n"
    unfolding es_def using remove_self_loops_wf [OF wf] by blast
  have no_row: "\<not> list_ex (\<lambda>(e, w). n \<le> fst e) es"
    using in_es by (fastforce simp: list_ex_iff)
  have no_col: "\<not> list_ex (\<lambda>(e, w). n \<le> snd e) es"
    using in_es by (fastforce simp: list_ex_iff)
  have len: "\<not> (case ew of None \<Rightarrow> False | Some w \<Rightarrow> length w \<noteq> length ei)"
    using wk by (simp add: edge_weight_ok_def split: option.splits)
  consider "nrm = None" | "nrm = Some ''sym''" | "nrm = Some ''rw''"
    using nv by (auto simp: valid_normalization_def)
  then show ?thesis
  proof cases
    case 1
    then have "get_laplacian ei ew nrm n =
        Inr (map (\<lambda>(e, w). (e, - w)) es @ map (\<lambda>i. ((i, i), degree es i)) [0..<n])"
      using no_row len by (simp add: get_laplacian_def es_def [symmetric] Let_def)
    then show ?thesis using in_es by (fastforce simp: image_iff)
  next
    case 2
    then have "get_laplacian ei ew nrm n =
        Inr (map (\<lambda>(e, w). (e, - (deg_inv_sqrt (degree es (fst e)) * w
                 * deg_inv_sqrt (degree es (snd e))))) es
             @ map (\<lambda>i. ((i, i), 1)) [0..<n])"
      using no_row no_col len by (simp add: get_laplacian_def es_def [symmetric] Let_def)
    then show ?thesis using in_es by (fastforce simp: image_iff)
  next
    case 3
    then have "get_laplacian ei ew nrm n =
        Inr (map (\<lambda>(e, w). (e, - (deg_inv (degree es (fst e)) * w))) es
             @ map (\<lambda>i. ((i, i), 1)) [0..<n])"
      using no_row len by (simp add: get_laplacian_def es_def [symmetric] Let_def)
    then show ?thesis using in_es by (fastforce simp: image_iff)
  qed
qed

lemma maybe_num_nodes_eq:
  assumes bound: "\<forall>e \<in> set ei. fst e < n \<and> snd e < n"
    and diag: "\<forall>i < n. (i, i) \<in> set ei"
  shows "maybe_num_nodes ei = n"
proof (cases "n = 0")
  case True
  then have "ei = []" using bound by (cases ei) auto
  then show ?thesis using True by (simp add: maybe_num_nodes_def)
next
  case False
  then have last: "(n - 1, n - 1) \<in> set ei" using diag by simp
  then have ne: "ei \<noteq> []" by auto
  have "n - 1 \<in> set (map fst ei @ map snd ei)" using last by force
  then have lo: "n - 1 \<le> fold max (map fst ei @ map snd ei) 0" by (rule fold_max_ge_elem)
  have "\<forall>x \<in> set (map fst ei @ map snd ei). x \<le> n - 1" using bound by fastforce
  then have hi: "fold max (map fst ei @ map snd ei) 0 \<le> n - 1" by (rule fold_max_le) simp
  show ?thesis using lo hi ne False by (simp add: maybe_num_nodes_def)
qed

lemma square_toarray: "square n (toarray n es)"
  by (auto simp: square_def toarray_def)

lemma to_scipy_square:
  assumes "\<forall>x \<in> set lap. fst (fst x) < n \<and> snd (fst x) < n"
    and "\<forall>i < n. \<exists>v. ((i, i), v) \<in> set lap"
  shows "to_scipy_sparse_matrix lap = toarray n lap"
proof -
  have "maybe_num_nodes (map fst lap) = n"
  proof (rule maybe_num_nodes_eq)
    show "\<forall>e \<in> set (map fst lap). fst e < n \<and> snd e < n" using assms(1) by auto
    show "\<forall>i < n. (i, i) \<in> set (map fst lap)" using assms(2) by force
  qed
  then show ?thesis by (simp add: to_scipy_sparse_matrix_def)
qed

lemma laplacian_wf:
  assumes "wf_edges n ei" "valid_normalization nrm" "edge_weight_ok ei ew"
  shows "\<exists>L. laplacian ei ew nrm n = Inr L \<and> square n L"
proof -
  obtain lap where lap: "get_laplacian ei ew nrm n = Inr lap"
     "\<forall>x \<in> set lap. fst (fst x) < n \<and> snd (fst x) < n" "\<forall>i < n. \<exists>v. ((i, i), v) \<in> set lap"
    using get_laplacian_wf [OF assms] by blast
  have "to_scipy_sparse_matrix lap = toarray n lap" using lap(2,3) by (rule to_scipy_square)
  then show ?thesis using lap(1) by (simp add: laplacian_def square_toarray)
qed

lemma square_pstep_base:
  assumes "laplacian ei ew (normalization self) n = Inr L" "square n L"
  shows "pstep_base self ei ew n = Inr (mat_sub (identity n) (scale (beta self) L))"
    and "square n (mat_sub (identity n) (scale (beta self) L))"
  using assms
  by (simp_all add: pstep_base_def square_length square_mat_sub square_identity square_scale)

lemma pstep_base_wf:
  assumes "wf_edges n ei" "valid_normalization (normalization self)" "edge_weight_ok ei ew"
  shows "\<exists>M. pstep_base self ei ew n = Inr M \<and> square n M"
proof -
  obtain L where L: "laplacian ei ew (normalization self) n = Inr L" "square n L"
    using laplacian_wf [OF assms] by blast
  show ?thesis using square_pstep_base [OF L] by blast
qed

lemma pstep_base_p_update: "pstep_base (self\<lparr>p := q\<rparr>) ei ew n = pstep_base self ei ew n"
  by (simp add: pstep_base_def cong: sum.case_cong)

lemma pstep_loop_from_base:
  assumes sq: "square n M"
  shows "pstep_loop M i (M, 0) = (mat_pow M (Suc i), i)"
proof -
  have "M = mat_pow M (Suc 0)" using sq by (simp add: dot_identity_right square_length)
  then have "pstep_loop M i (M, 0) = pstep_loop M i (mat_pow M (Suc 0), 0)" by simp
  also have "\<dots> = (mat_pow M (Suc i), i)" using pstep_loop_eq [OF sq, of i 0 0] by simp
  finally show ?thesis .
qed

text \<open>
  Claim C5. For every well-formed graph and every bandwidth \<^verbatim>\<open>beta\<close>, the P-step encoding with
  \<open>p = 1\<close> is exactly the base matrix \<open>M = I - beta * L\<close>, where \<open>L\<close> is the graph's
  Laplacian as a dense \<open>n \<times> n\<close> matrix; the loop body, the only place that multiplies
  matrices, runs zero times (the ghost counter of \<^verbatim>\<open>dot\<close> calls is 0). Entry \<open>(i, j)\<close> of
  the result is \<open>(if i = j then 1 else 0) - beta * L ! i ! j\<close>.
\<close>

theorem pstep_p_one:
  assumes p1: "p self = 1"
    and wf: "wf_edges n ei" "valid_normalization (normalization self)" "edge_weight_ok ei ew"
  shows "\<exists>L. laplacian ei ew (normalization self) n = Inr L \<and> square n L
      \<and> PStepRWEncoding_compute_pe_from_edge_weight self ei ew n
          = Inr (mat_sub (identity n) (scale (beta self) L))
      \<and> pstep_run self ei ew n = Inr (mat_sub (identity n) (scale (beta self) L), 0)
      \<and> (\<forall>i < n. \<forall>j < n. mat_sub (identity n) (scale (beta self) L) ! i ! j
            = (if i = j then 1 else 0) - beta self * L ! i ! j)"
proof -
  obtain L where L: "laplacian ei ew (normalization self) n = Inr L" "square n L"
    using laplacian_wf [OF wf] by blast
  let ?M = "mat_sub (identity n) (scale (beta self) L)"
  have run: "pstep_run self ei ew n = Inr (?M, 0)"
    using square_pstep_base(1) [OF L] p1 by (simp add: pstep_run_def)
  then have pe: "PStepRWEncoding_compute_pe_from_edge_weight self ei ew n = Inr ?M"
    by (simp add: PStepRWEncoding_compute_pe_from_edge_weight_def)
  have "\<forall>i < n. \<forall>j < n. ?M ! i ! j = (if i = j then 1 else 0) - beta self * L ! i ! j"
  proof (intro allI impI)
    fix i j assume ij: "i < n" "j < n"
    have "?M ! i ! j = identity n ! i ! j - scale (beta self) L ! i ! j"
      using square_identity [of n] square_scale [OF L(2)] ij by (rule mat_sub_nth)
    then show "?M ! i ! j = (if i = j then 1 else 0) - beta self * L ! i ! j"
      using L(2) ij by (simp add: scale_nth identity_nth)
  qed
  then show ?thesis using L run pe by blast
qed

text \<open>
  Claim C6. For every well-formed graph, every bandwidth and every integer \<open>k \<ge> 1\<close>, the
  P-step encoding computed with \<open>p = k + 1\<close> is the encoding computed with \<open>p = k\<close>
  multiplied on the right by \<open>M = I - beta * L\<close>; the encoding of order \<open>k\<close> is the
  \<open>k\<close>-th power of \<open>M\<close> and is reached with \<open>k - 1\<close> calls of \<^verbatim>\<open>dot\<close>.
\<close>

theorem pstep_succ:
  assumes k: "1 \<le> k"
    and wf: "wf_edges n ei" "valid_normalization (normalization self)" "edge_weight_ok ei ew"
  shows "\<exists>M X. pstep_base self ei ew n = Inr M \<and> square n M
      \<and> PStepRWEncoding_compute_pe_from_edge_weight (self\<lparr>p := k\<rparr>) ei ew n = Inr X
      \<and> PStepRWEncoding_compute_pe_from_edge_weight (self\<lparr>p := k + 1\<rparr>) ei ew n
          = Inr (dot X M)
      \<and> X = mat_pow M (nat k)
      \<and> pstep_run (self\<lparr>p := k\<rparr>) ei ew n = Inr (X, nat (k - 1))"
proof -
  obtain M where base: "pstep_base self ei ew n = Inr M" and sq: "square n M"
    using pstep_base_wf [OF wf] by blast
  have base': "\<And>q. pstep_base (self\<lparr>p := q\<rparr>) ei ew n = Inr M"
    using base by (simp add: pstep_base_p_update)
  define j where "j = nat (k - 1)"
  have j: "nat (k - 1) = j" "nat k = Suc j" "nat (k + 1 - 1) = Suc j"
    using k by (simp_all add: j_def)
  note loop = pstep_loop_from_base [OF sq]
  have run_k: "pstep_run (self\<lparr>p := k\<rparr>) ei ew n = Inr (mat_pow M (nat k), nat (k - 1))"
    using base' [of k] loop [of j] j by (simp add: pstep_run_def)
  have run_k1: "pstep_run (self\<lparr>p := k + 1\<rparr>) ei ew n = Inr (dot (mat_pow M (nat k)) M, Suc j)"
    using base' [of "k + 1"] loop [of j] j pstep_loop_snoc [of M j "(M, 0)"]
    by (simp add: pstep_run_def)
  show ?thesis
    using base sq run_k run_k1
    by (simp add: PStepRWEncoding_compute_pe_from_edge_weight_def)
qed

theorem pstep_p_one_witness:
  "p (pstep_example 1) = 1 \<and> wf_edges 3 path3
   \<and> valid_normalization (normalization (pstep_example 1)) \<and> edge_weight_ok path3 None
   \<and> laplacian path3 None None 3 = Inr [[1, -1, 0], [-1, 2, -1], [0, -1, 1]]
   \<and> PStepRWEncoding_compute_pe_from_edge_weight (pstep_example 1) path3 None 3
       = Inr [[1/2, 1/2, 0], [1/2, 0, 1/2], [0, 1/2, 1/2]]
   \<and> pstep_run (pstep_example 1) path3 None 3
       = Inr ([[1/2, 1/2, 0], [1/2, 0, 1/2], [0, 1/2, 1/2]], 0)"
proof -
  have h1: "p (pstep_example 1) = 1" by (simp add: pstep_example_def)
  have h2: "wf_edges 3 path3" by (simp add: wf_edges_def path3_def)
  have h3: "valid_normalization (normalization (pstep_example 1))"
    by (simp add: valid_normalization_def pstep_example_def)
  have h4: "edge_weight_ok path3 None" by (simp add: edge_weight_ok_def)
  have L: "laplacian path3 None (normalization (pstep_example 1)) 3
             = Inr [[1, -1, 0], [-1, 2, -1], [0, -1, 1]]"
    by code_simp
  have M: "mat_sub (identity 3) (scale (beta (pstep_example 1)) [[1, -1, 0], [-1, 2, -1], [0, -1, 1]])
             = [[1/2, 1/2, 0], [1/2, 0, 1/2], [0, 1/2, 1/2]]"
    by code_simp
  have n: "normalization (pstep_example 1) = None" by (simp add: pstep_example_def)
  show ?thesis
    using pstep_p_one [OF h1 h2 h3 h4] h1 h2 h3 h4 L M n by auto
qed

theorem pstep_succ_witness:
  "(1::int) \<le> 2 \<and> wf_edges 3 path3
   \<and> valid_normalization (normalization (pstep_example 0)) \<and> edge_weight_ok path3 None
   \<and> PStepRWEncoding_compute_pe_from_edge_weight (pstep_example 2) path3 None 3
       = Inr [[1/2, 1/4, 1/4], [1/4, 1/2, 1/4], [1/4, 1/4, 1/2]]
   \<and> PStepRWEncoding_compute_pe_from_edge_weight (pstep_example 3) path3 None 3
       = Inr (dot [[1/2, 1/4, 1/4], [1/4, 1/2, 1/4], [1/4, 1/4, 1/2]]
                  [[1/2, 1/2, 0], [1/2, 0, 1/2], [0, 1/2, 1/2]])
   \<and> [[1/2, 1/4, 1/4], [1/4, 1/2, 1/4], [1/4, 1/4, 1/2]]
       = mat_pow [[1/2, 1/2, 0], [1/2, 0, 1/2], [0, 1/2, 1/2]] 2
   \<and> pstep_run (pstep_example 2) path3 None 3
       = Inr ([[1/2, 1/4, 1/4], [1/4, 1/2, 1/4], [1/4, 1/4, 1/2]], 1)"
proof -
  have h1: "(1::int) \<le> 2" by simp
  have h2: "wf_edges 3 path3" by (simp add: wf_edges_def path3_def)
  have h3: "valid_normalization (normalization (pstep_example 0))"
    by (simp add: valid_normalization_def pstep_example_def)
  have h4: "edge_weight_ok path3 None" by (simp add: edge_weight_ok_def)
  have base: "pstep_base (pstep_example 0) path3 None 3
                = Inr [[1/2, 1/2, 0], [1/2, 0, 1/2], [0, 1/2, 1/2]]"
    by code_simp
  have pw: "mat_pow [[1/2, 1/2, 0], [1/2, 0, 1/2], [0, 1/2, 1/2]] (nat 2)
                = [[1/2, 1/4, 1/4], [1/4, 1/2, 1/4], [1/4, 1/4, 1/2]]"
    by code_simp
  have upd: "(pstep_example 0)\<lparr>p := 2\<rparr> = pstep_example 2"
      "(pstep_example 0)\<lparr>p := 2 + 1\<rparr> = pstep_example 3"
    by (simp_all add: pstep_example_def)
  show ?thesis
    using pstep_succ [OF h1 h2 h3 h4] h1 h2 h3 h4 base pw upd
    by (auto simp: numeral_2_eq_2)
qed

subsection \<open>One iteration of \<^verbatim>\<open>apply_to\<close>\<close>

lemma apply_to_step_miss:
  "apply_to_step cpe flag self None (i, g) (h, ap, pl) =
     (case cpe self g of
        Inl e \<Rightarrow> (Some e, (h, ap, pl))
      | Inr t \<Rightarrow>
          if zero_diag self then
            (case (if flag self then diagonal_12_zero t else diagonal_01_zero t) of
               Inl e \<Rightarrow> (Some e, (h @ [t, t], ap @ [length h], pl))
             | Inr t' \<Rightarrow> (None, (h @ [t, t'], ap @ [length h], pl @ [Suc (length h)])))
          else (None, (h @ [t], ap @ [length h], pl @ [length h])))"
  by (simp add: apply_to_step_def Let_def nth_append list_update_append split: sum.splits)

lemma apply_to_step_hit:
  "apply_to_step cpe flag self (Some refs) (i, g) (h, ap, pl) =
     (if i < length refs then
        (if zero_diag self then
           (case (if flag self then diagonal_12_zero (h ! (refs ! i))
                  else diagonal_01_zero (h ! (refs ! i))) of
              Inl e \<Rightarrow> (Some e, (h @ [h ! (refs ! i)], ap, pl))
            | Inr t' \<Rightarrow> (None, (h @ [t'], ap, pl @ [length h])))
         else (None, (h, ap, pl @ [refs ! i])))
      else (Some IndexError, (h, ap, pl)))"
  by (simp add: apply_to_step_def Let_def nth_append list_update_append split: sum.splits)

lemma step_miss_success:
  assumes "cpe self g = Inr t" and "zero_diag_mask flag self t = Inr t'"
  shows "\<exists>e1 a r. apply_to_step cpe flag self None (i, g) (h, ap, pl)
                     = (None, (h @ e1, ap @ [a], pl @ [r]))
           \<and> a < length (h @ e1) \<and> r < length (h @ e1)
           \<and> (h @ e1) ! a = t \<and> (h @ e1) ! r = t'"
proof (cases "zero_diag self")
  case True
  then have "apply_to_step cpe flag self None (i, g) (h, ap, pl)
               = (None, (h @ [t, t'], ap @ [length h], pl @ [Suc (length h)]))"
    using assms by (simp add: apply_to_step_miss zero_diag_mask_def split: if_splits)
  moreover have "(h @ [t, t']) ! length h = t" "(h @ [t, t']) ! Suc (length h) = t'"
    by (simp_all add: nth_append)
  ultimately show ?thesis
    by (intro exI [of _ "[t, t']"] exI [of _ "length h"] exI [of _ "Suc (length h)"]) simp
next
  case False
  then have "apply_to_step cpe flag self None (i, g) (h, ap, pl)
               = (None, (h @ [t], ap @ [length h], pl @ [length h]))" and "t' = t"
    using assms by (simp_all add: apply_to_step_miss zero_diag_mask_def)
  then show ?thesis
    by (intro exI [of _ "[t]"] exI [of _ "length h"]) simp
qed

lemma step_miss_None:
  assumes "fst (apply_to_step cpe flag self None (i, g) s) = None"
  shows "\<exists>t t'. cpe self g = Inr t \<and> zero_diag_mask flag self t = Inr t'"
proof -
  obtain h ap pl where s: "s = (h, ap, pl)" by (cases s)
  show ?thesis
    using assms unfolding s apply_to_step_miss zero_diag_mask_def
    by (auto split: sum.splits if_splits)
qed

lemma step_hit_success:
  assumes "i < length refs" and "refs ! i < length h"
    and "zero_diag_mask flag self (h ! (refs ! i)) = Inr t'"
  shows "\<exists>e1 r. apply_to_step cpe flag self (Some refs) (i, g) (h, ap, pl)
                     = (None, (h @ e1, ap, pl @ [r]))
           \<and> r < length (h @ e1) \<and> (h @ e1) ! r = t'"
proof (cases "zero_diag self")
  case True
  then have "apply_to_step cpe flag self (Some refs) (i, g) (h, ap, pl)
               = (None, (h @ [t'], ap, pl @ [length h]))"
    using assms by (simp add: apply_to_step_hit zero_diag_mask_def split: if_splits)
  then show ?thesis
    by (intro exI [of _ "[t']"] exI [of _ "length h"]) simp
next
  case False
  then have "apply_to_step cpe flag self (Some refs) (i, g) (h, ap, pl)
               = (None, (h, ap, pl @ [refs ! i]))" and "t' = h ! (refs ! i)"
    using assms by (simp_all add: apply_to_step_hit zero_diag_mask_def)
  then show ?thesis using assms(2)
    by (intro exI [of _ "[]"] exI [of _ "refs ! i"]) simp
qed

lemma step_hit_indep:
  "apply_to_step cpe flag self (Some refs) ig s = apply_to_step cpe' flag self (Some refs) ig s"
  by (simp add: apply_to_step_def)

subsection \<open>The loop of \<^verbatim>\<open>apply_to\<close>\<close>

lemma loop_hit_indep:
  "apply_to_loop cpe flag self (Some refs) igs s = apply_to_loop cpe' flag self (Some refs) igs s"
proof (induction igs arbitrary: s)
  case Nil
  show ?case by simp
next
  case (Cons ig igs)
  show ?case
    using Cons.IH step_hit_indep [of cpe flag self refs ig s cpe']
    by (simp split: prod.splits option.splits)
qed

lemma nth_app_left: "i < length xs \<Longrightarrow> (xs @ ys) ! i = xs ! i"
  by (simp add: nth_append)

lemma deref_append: "\<forall>r \<in> set rs. r < length h \<Longrightarrow> deref (h @ ext) rs = deref h rs"
  by (simp add: deref_def nth_append)

lemma loop_miss_success:
  assumes "\<forall>g \<in> set gs. \<exists>t t'. cpe self g = Inr t \<and> zero_diag_mask flag self t = Inr t'"
  shows "\<exists>ext ap' pl'.
           apply_to_loop cpe flag self None (enumerate k gs) (h, ap, pl)
             = (None, (h @ ext, ap @ ap', pl @ pl'))
           \<and> (\<forall>r \<in> set ap' \<union> set pl'. r < length (h @ ext))
           \<and> deref (h @ ext) ap' = map (\<lambda>g. projr (cpe self g)) gs
           \<and> deref (h @ ext) pl'
               = map (\<lambda>g. projr (zero_diag_mask flag self (projr (cpe self g)))) gs"
  using assms
proof (induction gs arbitrary: k h ap pl)
  case Nil
  show ?case
    by (intro exI [of _ "[]"]) (simp add: deref_def)
next
  case (Cons g gs)
  obtain t t' where t: "cpe self g = Inr t" "zero_diag_mask flag self t = Inr t'"
    using Cons.prems by auto
  obtain e1 a r where step:
      "apply_to_step cpe flag self None (k, g) (h, ap, pl) = (None, (h @ e1, ap @ [a], pl @ [r]))"
      "a < length (h @ e1)" "r < length (h @ e1)" "(h @ e1) ! a = t" "(h @ e1) ! r = t'"
    using step_miss_success [of cpe self g t flag t' k h ap pl] t by blast
  have rest: "\<forall>g \<in> set gs. \<exists>t t'. cpe self g = Inr t \<and> zero_diag_mask flag self t = Inr t'"
    using Cons.prems by simp
  obtain e2 ap2 pl2 where loop:
      "apply_to_loop cpe flag self None (enumerate (Suc k) gs) (h @ e1, ap @ [a], pl @ [r])
         = (None, ((h @ e1) @ e2, (ap @ [a]) @ ap2, (pl @ [r]) @ pl2))"
      "\<forall>r \<in> set ap2 \<union> set pl2. r < length ((h @ e1) @ e2)"
      "deref ((h @ e1) @ e2) ap2 = map (\<lambda>g. projr (cpe self g)) gs"
      "deref ((h @ e1) @ e2) pl2
         = map (\<lambda>g. projr (zero_diag_mask flag self (projr (cpe self g)))) gs"
    using Cons.IH [OF rest, of "Suc k" "h @ e1" "ap @ [a]" "pl @ [r]"] by blast
  have a': "((h @ e1) @ e2) ! a = t" and r': "((h @ e1) @ e2) ! r = t'"
    using step(2-5) nth_app_left [of a "h @ e1" e2] nth_app_left [of r "h @ e1" e2] by simp_all
  have "apply_to_loop cpe flag self None (enumerate k (g # gs)) (h, ap, pl)
          = (None, (h @ (e1 @ e2), ap @ (a # ap2), pl @ (r # pl2)))"
    using step(1) loop(1) by (simp add: enumerate_simps)
  moreover have "\<forall>x \<in> set (a # ap2) \<union> set (r # pl2). x < length (h @ (e1 @ e2))"
    using step(2,3) loop(2) by auto
  moreover have "deref (h @ (e1 @ e2)) (a # ap2) = map (\<lambda>g. projr (cpe self g)) (g # gs)"
    using a' loop(3) t by (simp add: deref_def)
  moreover have "deref (h @ (e1 @ e2)) (r # pl2)
      = map (\<lambda>g. projr (zero_diag_mask flag self (projr (cpe self g)))) (g # gs)"
    using r' loop(4) t by (simp add: deref_def)
  ultimately show ?case by blast
qed

lemma loop_miss_None:
  assumes "fst (apply_to_loop cpe flag self None (enumerate k gs) s) = None"
  shows "\<forall>g \<in> set gs. \<exists>t t'. cpe self g = Inr t \<and> zero_diag_mask flag self t = Inr t'"
  using assms
proof (induction gs arbitrary: k s)
  case Nil
  show ?case by simp
next
  case (Cons g gs)
  obtain e s' where st: "apply_to_step cpe flag self None (k, g) s = (e, s')"
    by (cases "apply_to_step cpe flag self None (k, g) s")
  have e: "e = None"
    using Cons.prems st by (cases e) (simp_all add: enumerate_simps)
  then have "fst (apply_to_step cpe flag self None (k, g) s) = None" using st by simp
  then have here: "\<exists>t t'. cpe self g = Inr t \<and> zero_diag_mask flag self t = Inr t'"
    by (rule step_miss_None)
  have "fst (apply_to_loop cpe flag self None (enumerate (Suc k) gs) s') = None"
    using Cons.prems st e by (simp add: enumerate_simps)
  then have "\<forall>g \<in> set gs. \<exists>t t'. cpe self g = Inr t \<and> zero_diag_mask flag self t = Inr t'"
    by (rule Cons.IH)
  then show ?case using here by simp
qed

lemma loop_hit_success:
  assumes "\<forall>r \<in> set refs. r < length h" and "k + length gs \<le> length refs"
    and "\<forall>j < length gs. \<exists>t'. zero_diag_mask flag self (h ! (refs ! (k + j))) = Inr t'"
  shows "\<exists>ext pl'.
           apply_to_loop cpe flag self (Some refs) (enumerate k gs) (h, ap, pl)
             = (None, (h @ ext, ap, pl @ pl'))
           \<and> (\<forall>r \<in> set pl'. r < length (h @ ext))
           \<and> deref (h @ ext) pl'
               = map (\<lambda>j. projr (zero_diag_mask flag self (h ! (refs ! (k + j))))) [0..<length gs]"
  using assms
proof (induction gs arbitrary: k h pl)
  case Nil
  show ?case
    by (intro exI [of _ "[]"]) (simp add: deref_def)
next
  case (Cons g gs)
  have k: "k < length refs" and kr: "refs ! k < length h"
    using Cons.prems(1,2) by auto
  obtain t' where t': "zero_diag_mask flag self (h ! (refs ! k)) = Inr t'"
    using Cons.prems(3) by force
  obtain e1 r where step:
      "apply_to_step cpe flag self (Some refs) (k, g) (h, ap, pl) = (None, (h @ e1, ap, pl @ [r]))"
      "r < length (h @ e1)" "(h @ e1) ! r = t'"
    using step_hit_success [of k refs h flag self t' cpe g ap pl] k kr t' by blast
  have same: "\<And>j. k + j < length refs \<Longrightarrow> (h @ e1) ! (refs ! (k + j)) = h ! (refs ! (k + j))"
    using Cons.prems(1) by (simp add: nth_append)
  have p1: "\<forall>r \<in> set refs. r < length (h @ e1)" using Cons.prems(1) by auto
  have p2: "Suc k + length gs \<le> length refs" using Cons.prems(2) by simp
  have p3: "\<forall>j < length gs.
      \<exists>t'. zero_diag_mask flag self ((h @ e1) ! (refs ! (Suc k + j))) = Inr t'"
  proof (intro allI impI)
    fix j assume j: "j < length gs"
    then have "k + Suc j < length refs" using Cons.prems(2) by simp
    then have "(h @ e1) ! (refs ! (k + Suc j)) = h ! (refs ! (k + Suc j))" by (rule same)
    moreover have "\<exists>t'. zero_diag_mask flag self (h ! (refs ! (k + Suc j))) = Inr t'"
      using Cons.prems(3) j by (metis Suc_less_eq length_Cons)
    ultimately show "\<exists>t'. zero_diag_mask flag self ((h @ e1) ! (refs ! (Suc k + j))) = Inr t'"
      by simp
  qed
  obtain e2 pl2 where loop:
      "apply_to_loop cpe flag self (Some refs) (enumerate (Suc k) gs) (h @ e1, ap, pl @ [r])
         = (None, ((h @ e1) @ e2, ap, (pl @ [r]) @ pl2))"
      "\<forall>r \<in> set pl2. r < length ((h @ e1) @ e2)"
      "deref ((h @ e1) @ e2) pl2
         = map (\<lambda>j. projr (zero_diag_mask flag self ((h @ e1) ! (refs ! (Suc k + j)))))
             [0..<length gs]"
    using Cons.IH [OF p1 p2 p3, of "pl @ [r]"] by blast
  have r': "((h @ e1) @ e2) ! r = t'"
    using step(2,3) nth_app_left [of r "h @ e1" e2] by simp
  have tail: "map (\<lambda>j. projr (zero_diag_mask flag self ((h @ e1) ! (refs ! (Suc k + j)))))
                [0..<length gs]
            = map (\<lambda>j. projr (zero_diag_mask flag self (h ! (refs ! (k + Suc j)))))
                [0..<length gs]"
  proof (rule map_cong [OF refl])
    fix j assume "j \<in> set [0..<length gs]"
    then have "k + Suc j < length refs" using Cons.prems(2) by simp
    then show "projr (zero_diag_mask flag self ((h @ e1) ! (refs ! (Suc k + j))))
             = projr (zero_diag_mask flag self (h ! (refs ! (k + Suc j))))"
      using same [of "Suc j"] by simp
  qed
  have upt: "[0..<length (g # gs)] = 0 # map Suc [0..<length gs]"
    by (simp add: upt_conv_Cons map_Suc_upt del: upt_Suc)
  have "apply_to_loop cpe flag self (Some refs) (enumerate k (g # gs)) (h, ap, pl)
          = (None, (h @ (e1 @ e2), ap, pl @ (r # pl2)))"
    using step(1) loop(1) by (simp add: enumerate_simps)
  moreover have "\<forall>x \<in> set (r # pl2). x < length (h @ (e1 @ e2))"
    using step(2) loop(2) by auto
  moreover have "deref (h @ (e1 @ e2)) (r # pl2)
      = map (\<lambda>j. projr (zero_diag_mask flag self (h ! (refs ! (k + j))))) [0..<length (g # gs)]"
    using r' loop(3) t' tail unfolding upt by (simp add: deref_def comp_def)
  ultimately show ?case by blast
qed

subsection \<open>\<^verbatim>\<open>apply_to\<close> on a cache miss and on a cache hit\<close>

lemma heap_save: "heap (save self ap split w) = heap w"
  by (simp add: save_def split: option.splits)

lemma files_save_absent:
  assumes "savepath self = Some sp" and "files w (cache_path sp split) = None"
  shows "files (save self ap split w)
           = (files w)(cache_path sp split \<mapsto> Pickle (deref (heap w) ap))"
  using assms by (simp add: save_def)

lemma files_save_present:
  assumes "savepath self = Some sp" and "files w (cache_path sp split) = Some f"
  shows "files (save self ap split w) = files w"
  using assms by (simp add: save_def)

lemma load_miss:
  assumes "savepath self = Some sp" and "files w (cache_path sp split) = None"
  shows "load self split w = (Inr None, w)"
  using assms by (simp add: load_def)

lemma load_hit:
  assumes "savepath self = Some sp" and "files w (cache_path sp split) = Some (Pickle ts)"
  shows "load self split w
           = (Inr (Some [length (heap w)..<length (heap w) + length ts]),
              w\<lparr>heap := heap w @ ts\<rparr>)"
  using assms by (simp add: load_def)

lemma files_load: "files (snd (load self split w)) = files w"
  by (simp add: load_def split: option.splits file_content.splits)

lemma apply_to_files_present:
  assumes "savepath self = Some sp" and "files w (cache_path sp split) = Some f"
  shows "files (snd (snd (apply_to cpe flag self ds split w))) = files w"
proof -
  obtain r w1 where l: "load self split w = (r, w1)" by (cases "load self split w")
  have w1: "files w1 = files w" using files_load [of self split w] l by simp
  show ?thesis
  proof (cases r)
    case (Inl e)
    then show ?thesis using l w1 by (simp add: apply_to_def)
  next
    case (Inr saved)
    obtain e h ap pl where lp:
        "apply_to_loop cpe flag self saved (enumerate 0 (graphs ds)) (heap w1, [], []) = (e, h, ap, pl)"
      by (metis prod_cases4)
    have "files (save self ap split (w1\<lparr>heap := h\<rparr>)) = files w"
      using files_save_present [of self sp "w1\<lparr>heap := h\<rparr>" split f ap] assms w1 by simp
    then show ?thesis using l Inr lp w1 by (cases e) (simp_all add: apply_to_def)
  qed
qed

lemma apply_to_hit_indep:
  assumes "savepath self = Some sp" and "files w (cache_path sp split) = Some f"
  shows "apply_to cpe' flag self ds split w = apply_to cpe flag self ds split w"
proof (cases f)
  case (Pickle ts)
  then show ?thesis
    using load_hit [OF assms(1), of w split ts] assms(2)
      loop_hit_indep [of cpe' flag self _ _ _ cpe]
    by (simp add: apply_to_def)
next
  case (Corrupt bs)
  then show ?thesis using assms by (simp add: apply_to_def load_def)
qed

lemma apply_to_miss_success:
  assumes sp: "savepath self = Some sp" and absent: "files w (cache_path sp split) = None"
    and ok: "\<forall>g \<in> set (graphs ds). \<exists>t t'. cpe self g = Inr t \<and> zero_diag_mask flag self t = Inr t'"
  shows "fst (apply_to cpe flag self ds split w) = None
     \<and> files (snd (snd (apply_to cpe flag self ds split w)))
         = (files w)(cache_path sp split \<mapsto> Pickle (map (\<lambda>g. projr (cpe self g)) (graphs ds)))
     \<and> pe_values (snd (apply_to cpe flag self ds split w))
         = Some (map (\<lambda>g. projr (zero_diag_mask flag self (projr (cpe self g)))) (graphs ds))"
proof -
  obtain ext ap pl where loop:
      "apply_to_loop cpe flag self None (enumerate 0 (graphs ds)) (heap w, [], [])
         = (None, (heap w @ ext, [] @ ap, [] @ pl))"
      "deref (heap w @ ext) ap = map (\<lambda>g. projr (cpe self g)) (graphs ds)"
      "deref (heap w @ ext) pl
         = map (\<lambda>g. projr (zero_diag_mask flag self (projr (cpe self g)))) (graphs ds)"
    using loop_miss_success [of "graphs ds" cpe self flag 0 "heap w" "[]" "[]"] ok by blast
  have res: "apply_to cpe flag self ds split w
      = (None, ds\<lparr>pe_list := Some pl\<rparr>, save self ap split (w\<lparr>heap := heap w @ ext\<rparr>))"
    using load_miss [OF sp absent] loop(1) by (simp add: apply_to_def)
  have "files (save self ap split (w\<lparr>heap := heap w @ ext\<rparr>))
      = (files w)(cache_path sp split \<mapsto> Pickle (deref (heap w @ ext) ap))"
    using files_save_absent [of self sp "w\<lparr>heap := heap w @ ext\<rparr>" split ap] sp absent by simp
  then show ?thesis
    using res loop(2,3) by (simp add: pe_values_def heap_save)
qed

lemma apply_to_miss_None:
  assumes sp: "savepath self = Some sp" and absent: "files w (cache_path sp split) = None"
    and ok: "fst (apply_to cpe flag self ds split w) = None"
  shows "\<forall>g \<in> set (graphs ds). \<exists>t t'. cpe self g = Inr t \<and> zero_diag_mask flag self t = Inr t'"
proof (rule loop_miss_None)
  obtain e s where lp:
      "apply_to_loop cpe flag self None (enumerate 0 (graphs ds)) (heap w, [], []) = (e, s)"
    by (cases "apply_to_loop cpe flag self None (enumerate 0 (graphs ds)) (heap w, [], [])")
  have "e = None"
    using ok load_miss [OF sp absent] lp
    by (cases e) (simp_all add: apply_to_def split: prod.splits)
  then show "fst (apply_to_loop cpe flag self None (enumerate 0 (graphs ds)) (heap w, [], [])) = None"
    using lp by simp
qed

lemma take_as_map: "n \<le> length ts \<Longrightarrow> map (\<lambda>j. f (ts ! j)) [0..<n] = map f (take n ts)"
  by (rule nth_equalityI) simp_all

lemma apply_to_hit_success:
  assumes sp: "savepath self = Some sp"
    and present: "files w (cache_path sp split) = Some (Pickle ts)"
    and len: "length (graphs ds) \<le> length ts"
    and ok: "\<forall>t \<in> set (take (length (graphs ds)) ts). \<exists>t'. zero_diag_mask flag self t = Inr t'"
  shows "fst (apply_to cpe flag self ds split w) = None
     \<and> pe_values (snd (apply_to cpe flag self ds split w))
         = Some (map (\<lambda>t. projr (zero_diag_mask flag self t)) (take (length (graphs ds)) ts))"
proof -
  let ?h = "heap w @ ts"
  let ?refs = "[length (heap w)..<length (heap w) + length ts]"
  let ?n = "length (graphs ds)"
  have at: "\<And>j. j < length ts \<Longrightarrow> ?h ! (?refs ! j) = ts ! j"
    by (simp add: nth_append)
  have p1: "\<forall>r \<in> set ?refs. r < length ?h" by simp
  have p2: "0 + ?n \<le> length ?refs" using len by simp
  have p3: "\<forall>j < ?n. \<exists>t'. zero_diag_mask flag self (?h ! (?refs ! (0 + j))) = Inr t'"
  proof (intro allI impI)
    fix j assume j: "j < ?n"
    then have "ts ! j \<in> set (take ?n ts)" using len by (metis in_set_conv_nth length_take min.absorb2 nth_take)
    then show "\<exists>t'. zero_diag_mask flag self (?h ! (?refs ! (0 + j))) = Inr t'"
      using ok at [of j] j len by simp
  qed
  obtain ext pl where loop:
      "apply_to_loop cpe flag self (Some ?refs) (enumerate 0 (graphs ds)) (?h, [], [])
         = (None, (?h @ ext, [], [] @ pl))"
      "deref (?h @ ext) pl
         = map (\<lambda>j. projr (zero_diag_mask flag self (?h ! (?refs ! (0 + j))))) [0..<?n]"
    using loop_hit_success [OF p1 p2 p3, of cpe "[]" "[]"] by blast
  have "map (\<lambda>j. projr (zero_diag_mask flag self (?h ! (?refs ! (0 + j))))) [0..<?n]
      = map (\<lambda>j. projr (zero_diag_mask flag self (ts ! j))) [0..<?n]"
    using at len by (intro map_cong refl) simp
  also have "\<dots> = map (\<lambda>t. projr (zero_diag_mask flag self t)) (take ?n ts)"
    using len by (rule take_as_map)
  finally have vals: "deref (?h @ ext) pl
      = map (\<lambda>t. projr (zero_diag_mask flag self t)) (take ?n ts)"
    using loop(2) by simp
  have res: "apply_to cpe flag self ds split w
      = (None, ds\<lparr>pe_list := Some pl\<rparr>, save self [] split (w\<lparr>heap := ?h @ ext\<rparr>))"
    using load_hit [OF sp present] loop(1) by (simp add: apply_to_def)
  show ?thesis using res vals by (simp add: pe_values_def heap_save)
qed

subsection \<open>What the masking does to a tensor\<close>








text \<open>
  Claim C3. If the cache file \<^verbatim>\<open>{savepath}.{split}\<close> exists, \<^verbatim>\<open>apply_to\<close> leaves every
  file as it is, whatever encoder is configured and whether or not the call raises; the
  outcome does not depend on the encoder's \<^verbatim>\<open>compute_pe\<close>; and when the file holds a
  list at least as long as the dataset, the call succeeds and \<^verbatim>\<open>dataset.pe_list\<close> holds
  the cached values, index for index, each after the masking of the current encoder.
\<close>

theorem cache_no_overwrite:
  assumes "savepath self = Some sp" and "files w (cache_path sp split) = Some f"
  shows "files (snd (snd (apply_to cpe flag self ds split w))) = files w
     \<and> (\<forall>cpe'. apply_to cpe' flag self ds split w = apply_to cpe flag self ds split w)
     \<and> (\<forall>ts. f = Pickle ts \<and> length (graphs ds) \<le> length ts
            \<and> (\<forall>t \<in> set (take (length (graphs ds)) ts). \<exists>t'. zero_diag_mask flag self t = Inr t')
          \<longrightarrow> fst (apply_to cpe flag self ds split w) = None
            \<and> pe_values (snd (apply_to cpe flag self ds split w))
                = Some (map (\<lambda>t. projr (zero_diag_mask flag self t))
                          (take (length (graphs ds)) ts)))"
proof (intro conjI allI impI)
  show "files (snd (snd (apply_to cpe flag self ds split w))) = files w"
    using assms by (rule apply_to_files_present)
next
  fix cpe'
  show "apply_to cpe' flag self ds split w = apply_to cpe flag self ds split w"
    using assms by (rule apply_to_hit_indep)
next
  fix ts
  assume a: "f = Pickle ts \<and> length (graphs ds) \<le> length ts
    \<and> (\<forall>t \<in> set (take (length (graphs ds)) ts). \<exists>t'. zero_diag_mask flag self t = Inr t')"
  then have present: "files w (cache_path sp split) = Some (Pickle ts)" using assms(2) by simp
  note hit = apply_to_hit_success [OF assms(1) present, of ds flag cpe]
  show "fst (apply_to cpe flag self ds split w) = None" using hit a by blast
  show "pe_values (snd (apply_to cpe flag self ds split w))
      = Some (map (\<lambda>t. projr (zero_diag_mask flag self t)) (take (length (graphs ds)) ts))"
    using hit a by blast
qed

theorem cache_no_overwrite_witness:
  "savepath adj_enc = Some ''pe.pkl''
   \<and> files cached_world (cache_path ''pe.pkl'' ''train'') = Some (Pickle [Mat [[1, 1], [1, 1]]])
   \<and> files (snd (snd (AdjEncoding_apply_to adj_enc one_graph ''train'' cached_world)))
       = files cached_world
   \<and> fst (AdjEncoding_apply_to adj_enc one_graph ''train'' cached_world) = None
   \<and> pe_values (snd (AdjEncoding_apply_to adj_enc one_graph ''train'' cached_world))
       = Some [Mat [[0, 1], [1, 0]]]"
proof -
  have h1: "savepath adj_enc = Some ''pe.pkl''" by (simp add: adj_enc_def)
  have h2: "files cached_world (cache_path ''pe.pkl'' ''train'') = Some (Pickle [Mat [[1, 1], [1, 1]]])"
    by (simp add: cached_world_def cache_path_def)
  have n: "length (graphs one_graph) = 1" by (simp add: one_graph_def)
  have m: "zero_diag_mask (\<lambda>self. False) adj_enc (Mat [[1, 1], [1, 1]]) = Inr (Mat [[0, 1], [1, 0]])"
    by code_simp
  note inst = cache_no_overwrite [OF h1 h2, of AdjEncoding_compute_pe "\<lambda>self. False" one_graph]
  have "fst (apply_to AdjEncoding_compute_pe (\<lambda>self. False) adj_enc one_graph ''train'' cached_world) = None
     \<and> pe_values (snd (apply_to AdjEncoding_compute_pe (\<lambda>self. False) adj_enc one_graph ''train'' cached_world))
        = Some [Mat [[0, 1], [1, 0]]]"
    using inst n m by simp
  then show ?thesis using inst h1 h2 by (simp add: AdjEncoding_apply_to_def)
qed

text \<open>
  Claim C4. Cache round trip. A first \<^verbatim>\<open>apply_to\<close> finds no cache file and succeeds.
  A second \<^verbatim>\<open>apply_to\<close> of an encoder with the same \<^verbatim>\<open>savepath\<close>, \<^verbatim>\<open>zero_diag\<close> and
  edge-attribute flag, on a dataset with the same graphs and a world with the files the
  first call left, succeeds with the same \<^verbatim>\<open>pe_list\<close> values and leaves the files alone.
  This holds for every \<^verbatim>\<open>compute_pe\<close> the second encoder may have, also one that always
  raises: the second call computes no encoding.
\<close>

theorem cache_round_trip:
  assumes sp: "savepath self = Some sp"
    and absent: "files w (cache_path sp split) = None"
    and first: "fst (apply_to cpe flag self ds split w) = None"
    and fresh: "savepath self' = Some sp" "zero_diag self' = zero_diag self" "flag' self' = flag self"
    and again: "graphs ds' = graphs ds"
      "files w' = files (snd (snd (apply_to cpe flag self ds split w)))"
  shows "fst (apply_to cpe' flag' self' ds' split w') = None
     \<and> pe_values (snd (apply_to cpe' flag' self' ds' split w'))
         = pe_values (snd (apply_to cpe flag self ds split w))
     \<and> files (snd (snd (apply_to cpe' flag' self' ds' split w'))) = files w'"
proof -
  let ?raw = "map (\<lambda>g. projr (cpe self g)) (graphs ds)"
  have ok: "\<forall>g \<in> set (graphs ds). \<exists>t t'. cpe self g = Inr t \<and> zero_diag_mask flag self t = Inr t'"
    using sp absent first by (rule apply_to_miss_None)
  note one = apply_to_miss_success [where cpe = cpe and flag = flag, OF sp absent ok]
  have mask: "\<And>t. zero_diag_mask flag' self' t = zero_diag_mask flag self t"
    using fresh(2,3) by (simp add: zero_diag_mask_def)
  have present: "files w' (cache_path sp split) = Some (Pickle ?raw)"
    using again(2) one by simp
  have len: "length (graphs ds') \<le> length ?raw" using again(1) by simp
  have ok': "\<forall>t \<in> set (take (length (graphs ds')) ?raw). \<exists>t'. zero_diag_mask flag' self' t = Inr t'"
    using ok again(1) by (auto simp: mask)
  note two = apply_to_hit_success [OF fresh(1) present len ok', of cpe']
  have "map (\<lambda>t. projr (zero_diag_mask flag' self' t)) (take (length (graphs ds')) ?raw)
      = map (\<lambda>g. projr (zero_diag_mask flag self (projr (cpe self g)))) (graphs ds)"
    using again(1) by (simp add: mask comp_def)
  then have "pe_values (snd (apply_to cpe' flag' self' ds' split w'))
      = pe_values (snd (apply_to cpe flag self ds split w))"
    using one two by simp
  moreover have "files (snd (snd (apply_to cpe' flag' self' ds' split w'))) = files w'"
    using fresh(1) present by (rule apply_to_files_present)
  ultimately show ?thesis using two by simp
qed


theorem cache_round_trip_witness:
  "savepath full_enc = Some ''pe.pkl''
   \<and> files empty_world (cache_path ''pe.pkl'' ''train'') = None
   \<and> fst (FullEncoding_apply_to full_enc one_graph ''train'' empty_world) = None
   \<and> zero_diag full_enc = zero_diag full_enc \<and> graphs one_graph = graphs one_graph
   \<and> fst (apply_to (\<lambda>self g. Inl RuntimeError) (\<lambda>self. False) full_enc one_graph ''train''
            (snd (snd (FullEncoding_apply_to full_enc one_graph ''train'' empty_world)))) = None
   \<and> pe_values (snd (apply_to (\<lambda>self g. Inl RuntimeError) (\<lambda>self. False) full_enc one_graph
            ''train'' (snd (snd (FullEncoding_apply_to full_enc one_graph ''train'' empty_world)))))
       = pe_values (snd (FullEncoding_apply_to full_enc one_graph ''train'' empty_world))
   \<and> pe_values (snd (FullEncoding_apply_to full_enc one_graph ''train'' empty_world))
       = Some [Mat [[0, 1], [1, 0]]]"
proof -
  have h1: "savepath full_enc = Some ''pe.pkl''" by (simp add: full_enc_def)
  have h2: "files empty_world (cache_path ''pe.pkl'' ''train'') = None"
    by (simp add: empty_world_def)
  have h3: "fst (apply_to FullEncoding_compute_pe (\<lambda>self. False) full_enc one_graph ''train''
                   empty_world) = None"
    by code_simp
  have v: "pe_values (snd (apply_to FullEncoding_compute_pe (\<lambda>self. False) full_enc one_graph
                   ''train'' empty_world)) = Some [Mat [[0, 1], [1, 0]]]"
    by code_simp
  note inst = cache_round_trip [OF h1 h2 h3 h1 refl refl refl refl,
      of "\<lambda>self g. Inl RuntimeError"]
  show ?thesis using inst h1 h2 h3 v by (simp add: FullEncoding_apply_to_def)
qed



text \<open>
  Claim C2 says that with \<^verbatim>\<open>zero_diag\<close> the entry assigned to \<^verbatim>\<open>dataset.pe_list\<close> is a copy
  whose diagonal is 0, for all four classes. What \<^verbatim>\<open>AdjEncoding\<close> does on the graph with the
  edges 0-1, 1-0 and the self-loop 1-1: \<^verbatim>\<open>compute_pe\<close> returns the batch \<open>[[[0, 1], [1, 1]]]\<close>
  of shape \<open>[1, 2, 2]\<close>; \<^verbatim>\<open>apply_to\<close> takes the branch for encoders without
  \<^verbatim>\<open>use_edge_attr\<close>, whose \<^verbatim>\<open>pe.diagonal()\<close> pairs the dimensions 0 and 1, and so zeroes
  the first row of the adjacency matrix: the entry of \<^verbatim>\<open>pe_list\<close> is \<open>[[[0, 0], [1, 1]]]\<close>.
  The diagonal entry \<open>(1, 1)\<close> is still 1 and the edge \<open>(0, 1)\<close> is lost.
\<close>

theorem adj_zero_diag_zeroes_first_row:
  "AdjEncoding_compute_pe adj_enc loop_graph = Inr (Cube [[[0, 1], [1, 1]]])
   \<and> fst (AdjEncoding_apply_to adj_enc loop_dataset ''train'' empty_world) = None
   \<and> pe_values (snd (AdjEncoding_apply_to adj_enc loop_dataset ''train'' empty_world))
       = Some [Cube [[[0, 0], [1, 1]]]]"
proof -
  have a: "AdjEncoding_compute_pe adj_enc loop_graph = Inr (Cube [[[0, 1], [1, 1]]])"
    by code_simp
  have b: "fst (AdjEncoding_apply_to adj_enc loop_dataset ''train'' empty_world) = None"
    by code_simp
  have c: "pe_values (snd (AdjEncoding_apply_to adj_enc loop_dataset ''train'' empty_world))
       = Some [Cube [[[0, 0], [1, 1]]]]"
    by code_simp
  show ?thesis using a b c by simp
qed

text \<open>
  Claim C8 says that \<^verbatim>\<open>AdjEncoding.compute_pe\<close> returns a matrix of shape
  \<open>[num_nodes, num_nodes]\<close>. On the graph with three nodes and the edges 0-1 and 1-0 it
  returns \<open>[[[0, 1], [1, 0]]]\<close>, a tensor of rank 3 and shape \<open>[1, 2, 2]\<close>: a batch of one
  matrix, whose size is one more than the largest node index that has an edge. That the
  result does not depend on \<^verbatim>\<open>normalization\<close> holds for every encoder and graph.
\<close>

theorem adj_compute_pe_is_a_batch:
  "AdjEncoding_compute_pe adj_enc isolated_graph = Inr (Cube [[[0, 1], [1, 0]]])
   \<and> num_nodes isolated_graph = 3
   \<and> AdjEncoding_compute_pe (self\<lparr>normalization := nrm\<rparr>) g = AdjEncoding_compute_pe self g"
proof -
  have a: "AdjEncoding_compute_pe adj_enc isolated_graph = Inr (Cube [[[0, 1], [1, 0]]])"
    by code_simp
  have b: "num_nodes isolated_graph = 3" by (simp add: isolated_graph_def)
  show ?thesis using a b by (simp add: AdjEncoding_compute_pe_def)
qed

subsection \<open>The slice of \<^verbatim>\<open>LapEncoding.compute_pe\<close>\<close>







subsection \<open>One-hot vectors\<close>

lemma one_hot_classes_ok:
  assumes "0 < n" and "\<forall>c \<in> set codes. 0 \<le> c \<and> c < n"
  shows "one_hot_classes codes n = Inr (nat n)"
  using assms by (auto simp: one_hot_classes_def list_ex_iff)

lemma one_hot_ok:
  assumes "0 < n" and "\<forall>c \<in> set codes. 0 \<le> c \<and> c < n"
  shows "one_hot codes n = Inr (map (one_hot_row (nat n)) codes)"
  using one_hot_classes_ok [OF assms] by (simp add: one_hot_def)

lemma length_one_hot_row: "length (one_hot_row k c) = k"
  by (simp add: one_hot_row_def)

lemma sum_list_one_hot_row:
  assumes "0 \<le> c" and "c < int k"
  shows "sum_list (one_hot_row k c) = 1"
proof -
  have "sum_list (one_hot_row k c) = (\<Sum>j<k. if int j = c then 1 else 0)"
    by (simp add: one_hot_row_def interv_sum_list_conv_sum_set_nat atLeast0LessThan)
  also have "\<dots> = (\<Sum>j<k. if j = nat c then 1 else 0)"
    using assms by (intro sum.cong refl) auto
  also have "\<dots> = 1" using assms by simp
  finally show ?thesis .
qed

lemma sum_list_real_of_int: "sum_list (map real_of_int xs) = real_of_int (sum_list xs)"
  by (induction xs) simp_all

lemma sum_list_concat: "sum_list (concat xss) = sum_list (map sum_list (xss :: int list list))"
  by (induction xss) simp_all

lemma sum_list_const_one: "\<forall>x \<in> set xs. f x = (1::int) \<Longrightarrow> sum_list (map f xs) = int (length xs)"
  by (induction xs) simp_all

lemma sum_list_nat: "\<forall>k \<in> set ns. 0 \<le> k \<Longrightarrow> sum_list (map nat ns) = nat (sum_list ns)"
proof (induction ns)
  case Nil
  show ?case by simp
next
  case (Cons k ns)
  then have "0 \<le> k" "0 \<le> sum_list ns" by (simp_all add: sum_list_nonneg)
  then show ?case using Cons by (simp add: nat_add_distrib)
qed

lemma map_nth_upt: "map (\<lambda>j. f (xs ! j)) [0..<length xs] = map f xs"
  by (rule nth_equalityI) simp_all

subsection \<open>\<^verbatim>\<open>edge_attr_one_hot\<close> in sequence mode\<close>

lemma one_hot_columns_ok:
  assumes "col + length ns \<le> cols t" and "\<forall>k \<in> set ns. 0 < k"
    and "\<forall>r \<in> set (rows t). \<forall>j < length ns. 0 \<le> r ! (col + j) \<and> r ! (col + j) < ns ! j"
  shows "one_hot_columns (Some t) ns col
           = Inr (map (\<lambda>j. map (\<lambda>r. one_hot_row (nat (ns ! j)) (r ! (col + j))) (rows t))
                   [0..<length ns])"
  using assms
proof (induction ns arbitrary: col)
  case Nil
  show ?case by simp
next
  case (Cons n ns)
  have c: "\<not> cols t \<le> col" using Cons.prems(1) by simp
  have n: "0 < n" using Cons.prems(2) by simp
  have codes: "\<forall>c \<in> set (map (\<lambda>r. r ! col) (rows t)). 0 \<le> c \<and> c < n"
    using Cons.prems(3) by force
  have here: "one_hot (map (\<lambda>r. r ! col) (rows t)) n
      = Inr (map (\<lambda>r. one_hot_row (nat n) (r ! col)) (rows t))"
    using one_hot_ok [OF n codes] by (simp add: comp_def)
  have p1: "Suc col + length ns \<le> cols t" using Cons.prems(1) by simp
  have p2: "\<forall>k \<in> set ns. 0 < k" using Cons.prems(2) by simp
  have p3: "\<forall>r \<in> set (rows t). \<forall>j < length ns.
      0 \<le> r ! (Suc col + j) \<and> r ! (Suc col + j) < ns ! j"
  proof (intro ballI allI impI)
    fix r j assume r: "r \<in> set (rows t)" and j: "j < length ns"
    then have "0 \<le> r ! (col + Suc j) \<and> r ! (col + Suc j) < (n # ns) ! Suc j"
      using Cons.prems(3) by (metis Suc_less_eq length_Cons)
    then show "0 \<le> r ! (Suc col + j) \<and> r ! (Suc col + j) < ns ! j" by simp
  qed
  have rest: "one_hot_columns (Some t) ns (Suc col)
      = Inr (map (\<lambda>j. map (\<lambda>r. one_hot_row (nat (ns ! j)) (r ! (Suc col + j))) (rows t))
              [0..<length ns])"
    using Cons.IH [OF p1 p2 p3] .
  have upt: "[0..<length (n # ns)] = 0 # map Suc [0..<length ns]"
    by (simp add: upt_conv_Cons map_Suc_upt del: upt_Suc)
  show ?case
    unfolding upt using c here rest by (simp add: comp_def)
qed

lemma cat1_columns:
  assumes "0 < k"
  shows "cat1 (map (\<lambda>j. map (f j) rs) [0..<k])
           = Inr (map (\<lambda>r. concat (map (\<lambda>j. f j r) [0..<k])) rs)"
proof -
  obtain k' where k: "k = Suc k'" using assms by (cases k) auto
  have hd: "map (\<lambda>j. map (f j) rs) [0..<k] = map (f 0) rs # map (\<lambda>j. map (f j) rs) [1..<k]"
    using assms by (simp add: upt_conv_Cons)
  have "cat1 (map (\<lambda>j. map (f j) rs) [0..<k])
      = Inr (map (\<lambda>e. concat (map (\<lambda>m. m ! e) (map (\<lambda>j. map (f j) rs) [0..<k]))) [0..<length rs])"
    unfolding cat1_def by (subst (1) hd) simp
  also have "map (\<lambda>e. concat (map (\<lambda>m. m ! e) (map (\<lambda>j. map (f j) rs) [0..<k]))) [0..<length rs]
      = map (\<lambda>e. concat (map (\<lambda>j. f j (rs ! e)) [0..<k])) [0..<length rs]"
    by (intro map_cong refl arg_cong [where f = concat]) simp
  also have "\<dots> = map (\<lambda>r. concat (map (\<lambda>j. f j r) [0..<k])) rs"
    by (rule map_nth_upt)
  finally show ?thesis .
qed

lemma valid_codes_unfold:
  assumes "valid_codes t ns"
  shows "wf_int_tensor t" "cols t = length ns" "ns \<noteq> []" "\<forall>k \<in> set ns. 0 < k"
    "\<forall>r \<in> set (rows t). \<forall>j < length ns. 0 \<le> r ! j \<and> r ! j < ns ! j"
  using assms by (auto simp: valid_codes_def list_all_iff)

lemma edge_attr_one_hot_seq:
  assumes "valid_codes t ns"
  shows "edge_attr_one_hot (Some t) (IsSeq ns) = Inr (Mat (map (one_hot_features ns) (rows t)))"
proof -
  note v = valid_codes_unfold [OF assms]
  have colsn: "0 + length ns \<le> cols t" using v(2) by simp
  have codes: "\<forall>r \<in> set (rows t). \<forall>j < length ns. 0 \<le> r ! (0 + j) \<and> r ! (0 + j) < ns ! j"
    using v(5) by simp
  have cols_eq: "one_hot_columns (Some t) ns 0
      = Inr (map (\<lambda>j. map (\<lambda>r. one_hot_row (nat (ns ! j)) (r ! j)) (rows t)) [0..<length ns])"
    using one_hot_columns_ok [OF colsn v(4) codes] by simp
  have pos: "0 < length ns" using v(3) by simp
  have cat: "cat1 (map (\<lambda>j. map (\<lambda>r. one_hot_row (nat (ns ! j)) (r ! j)) (rows t)) [0..<length ns])
      = Inr (map (\<lambda>r. concat (map (\<lambda>j. one_hot_row (nat (ns ! j)) (r ! j)) [0..<length ns])) (rows t))"
    using cat1_columns [OF pos, of "\<lambda>j r. one_hot_row (nat (ns ! j)) (r ! j)" "rows t"] .
  show ?thesis
    by (simp add: edge_attr_one_hot_def cols_eq cat one_hot_features_def comp_def)
qed

lemma length_one_hot_features:
  assumes "\<forall>k \<in> set ns. 0 < k"
  shows "length (one_hot_features ns r) = nat (sum_list ns)"
proof -
  have "length (one_hot_features ns r) = sum_list (map (\<lambda>j. nat (ns ! j)) [0..<length ns])"
    by (simp add: one_hot_features_def length_concat comp_def length_one_hot_row)
  also have "\<dots> = sum_list (map nat ns)" by (simp add: map_nth_upt)
  also have "\<dots> = nat (sum_list ns)" using assms by (intro sum_list_nat) auto
  finally show ?thesis .
qed

lemma sum_list_one_hot_features:
  assumes "\<forall>j < length ns. 0 \<le> r ! j \<and> r ! j < ns ! j"
  shows "sum_list (one_hot_features ns r) = real (length ns)"
proof -
  have one: "\<forall>j \<in> set [0..<length ns]. sum_list (one_hot_row (nat (ns ! j)) (r ! j)) = 1"
    using assms by (auto intro!: sum_list_one_hot_row)
  have "sum_list (concat (map (\<lambda>j. one_hot_row (nat (ns ! j)) (r ! j)) [0..<length ns]))
      = sum_list (map (\<lambda>j. sum_list (one_hot_row (nat (ns ! j)) (r ! j))) [0..<length ns])"
    by (simp add: sum_list_concat comp_def)
  also have "\<dots> = int (length [0..<length ns])" using one by (rule sum_list_const_one)
  finally show ?thesis by (simp add: one_hot_features_def sum_list_real_of_int)
qed

subsection \<open>\<^verbatim>\<open>edge_attr_one_hot\<close> in integer mode\<close>

lemma valid_codes_int_unfold:
  assumes "valid_codes_int t n"
  shows "wf_int_tensor t" "0 < n" "\<forall>r \<in> set (rows t). \<forall>c \<in> set r. 1 \<le> c \<and> c \<le> n"
  using assms by (auto simp: valid_codes_int_def list_all_iff)

lemma edge_attr_one_hot_int:
  assumes "valid_codes_int t n"
  shows "edge_attr_one_hot (Some t) (IsInt n)
           = Inr (Cube (map (map (\<lambda>c. map real_of_int (one_hot_row (nat n) (c - 1)))) (rows t)))"
proof -
  note v = valid_codes_int_unfold [OF assms]
  have "\<forall>c \<in> set (concat (map (map (\<lambda>c. c - 1)) (rows t))). 0 \<le> c \<and> c < n"
    using v(3) by fastforce
  then have "one_hot_classes (concat (map (map (\<lambda>c. c - 1)) (rows t))) n = Inr (nat n)"
    using v(2) by (intro one_hot_classes_ok) auto
  then show ?thesis by (simp add: edge_attr_one_hot_def Let_def comp_def)
qed

lemma edge_attr_one_hot_int_zero:
  assumes "\<exists>r \<in> set (rows t). 0 \<in> set r"
  shows "edge_attr_one_hot (Some t) (IsInt n) = Inl RuntimeError"
proof -
  define codes where "codes = concat (map (map (\<lambda>c. c - 1)) (rows t))"
  have m: "- 1 \<in> set codes" unfolding codes_def using assms by force
  have ne: "codes \<noteq> []" using m by auto
  have neg: "list_ex (\<lambda>c. c < 0) codes"
    unfolding list_ex_iff using m by (intro bexI [of _ "- 1"]) simp_all
  have "one_hot_classes codes n = Inl RuntimeError"
    using ne neg by (simp add: one_hot_classes_def)
  then show ?thesis by (simp add: edge_attr_one_hot_def Let_def codes_def)
qed

lemma sum_list_int_row:
  assumes "0 < n" and "\<forall>c \<in> set r. 1 \<le> c \<and> c \<le> n"
  shows "sum_list (concat (map (\<lambda>c. map real_of_int (one_hot_row (nat n) (c - 1))) r))
           = real (length r)"
  using assms(2)
proof (induction r)
  case Nil
  show ?case by simp
next
  case (Cons c r)
  have "0 \<le> c - 1" "c - 1 < int (nat n)" using Cons.prems assms(1) by auto
  then have "sum_list (one_hot_row (nat n) (c - 1)) = 1" by (rule sum_list_one_hot_row)
  then show ?case using Cons by (simp add: sum_list_real_of_int)
qed

lemma one_hot_classes_bad:
  assumes "0 < n" and "\<exists>c \<in> set codes. c < 0 \<or> n \<le> c"
  shows "one_hot_classes codes n = Inl RuntimeError"
proof -
  have ne: "codes \<noteq> []" using assms(2) by auto
  have "list_ex (\<lambda>c. c < 0) codes \<or> list_ex (\<lambda>c. n \<le> c) codes"
    using assms(2) by (auto simp: list_ex_iff)
  then show ?thesis using ne assms(1) by (auto simp: one_hot_classes_def)
qed

lemma edge_attr_one_hot_int_bad:
  assumes "0 < n" and "\<exists>r \<in> set (rows t). \<exists>c \<in> set r. c < 1 \<or> n < c"
  shows "edge_attr_one_hot (Some t) (IsInt n) = Inl RuntimeError"
proof -
  define codes where "codes = concat (map (map (\<lambda>c. c - 1)) (rows t))"
  obtain r c where rc: "r \<in> set (rows t)" "c \<in> set r" "c < 1 \<or> n < c" using assms(2) by blast
  have "c - 1 \<in> set codes" unfolding codes_def using rc(1,2) by force
  moreover have "c - 1 < 0 \<or> n \<le> c - 1" using rc(3) by linarith
  ultimately have "\<exists>c \<in> set codes. c < 0 \<or> n \<le> c" by blast
  then have "one_hot_classes codes n = Inl RuntimeError"
    using assms(1) by (intro one_hot_classes_bad)
  then show ?thesis by (simp add: edge_attr_one_hot_def Let_def codes_def)
qed

lemma one_hot_bad:
  assumes "0 < n" and "\<exists>c \<in> set codes. c < 0 \<or> n \<le> c"
  shows "one_hot codes n = Inl RuntimeError"
  using one_hot_classes_bad [OF assms] by (simp add: one_hot_def)

lemma one_hot_columns_bad:
  assumes "col + length ns \<le> cols t" and "\<forall>k \<in> set ns. 0 < k"
    and "\<exists>r \<in> set (rows t). \<exists>j < length ns. r ! (col + j) < 0 \<or> ns ! j \<le> r ! (col + j)"
  shows "one_hot_columns (Some t) ns col = Inl RuntimeError"
  using assms
proof (induction ns arbitrary: col)
  case Nil
  then show ?case by simp
next
  case (Cons n ns)
  have c: "\<not> cols t \<le> col" using Cons.prems(1) by simp
  have n: "0 < n" using Cons.prems(2) by simp
  show ?case
  proof (cases "\<exists>c \<in> set (map (\<lambda>r. r ! col) (rows t)). c < 0 \<or> n \<le> c")
    case True
    then have "one_hot (map (\<lambda>r. r ! col) (rows t)) n = Inl RuntimeError"
      using n by (intro one_hot_bad)
    then show ?thesis using c by simp
  next
    case False
    then have good: "\<forall>c \<in> set (map (\<lambda>r. r ! col) (rows t)). 0 \<le> c \<and> c < n" by auto
    have here: "one_hot (map (\<lambda>r. r ! col) (rows t)) n
        = Inr (map (one_hot_row (nat n)) (map (\<lambda>r. r ! col) (rows t)))"
      using n good by (rule one_hot_ok)
    obtain r j where rj: "r \<in> set (rows t)" "j < length (n # ns)"
        "r ! (col + j) < 0 \<or> (n # ns) ! j \<le> r ! (col + j)"
      using Cons.prems(3) by blast
    have "j \<noteq> 0"
    proof
      assume "j = 0"
      then have "r ! col < 0 \<or> n \<le> r ! col" using rj(3) by simp
      then show False using good rj(1) by force
    qed
    then obtain j' where j': "j = Suc j'" by (cases j) auto
    have p1: "Suc col + length ns \<le> cols t" using Cons.prems(1) by simp
    have p2: "\<forall>k \<in> set ns. 0 < k" using Cons.prems(2) by simp
    have p3: "\<exists>r \<in> set (rows t). \<exists>j < length ns.
        r ! (Suc col + j) < 0 \<or> ns ! j \<le> r ! (Suc col + j)"
      using rj j' by (intro bexI [of _ r] exI [of _ j']) simp_all
    have "one_hot_columns (Some t) ns (Suc col) = Inl RuntimeError"
      using Cons.IH [OF p1 p2 p3] .
    then show ?thesis using c here by simp
  qed
qed

lemma edge_attr_one_hot_seq_bad:
  assumes "cols t = length ns" and "\<forall>k \<in> set ns. 0 < k"
    and "\<exists>r \<in> set (rows t). \<exists>j < length ns. r ! j < 0 \<or> ns ! j \<le> r ! j"
  shows "edge_attr_one_hot (Some t) (IsSeq ns) = Inl RuntimeError"
proof -
  have "one_hot_columns (Some t) ns 0 = Inl RuntimeError"
    using one_hot_columns_bad [of 0 ns t] assms by simp
  then show ?thesis by (simp add: edge_attr_one_hot_def)
qed

text \<open>
  Claim C10. \<^verbatim>\<open>edge_attr_one_hot\<close> reads the codes differently in its two modes.
  \<^item> With an \<^verbatim>\<open>int\<close> \<open>n > 0\<close> it encodes \<open>code - 1\<close>: when every code is in \<open>[1, n]\<close> no
    error is raised, the row of an edge holds one one-hot vector per column and sums to
    the number of columns; a code of 0 is an error for every \<open>n\<close>, and so is any code
    outside \<open>[1, n]\<close>.
  \<^item> With a sequence of positive cardinalities, one per column, it encodes the code
    itself: when every code of column \<open>j\<close> is in \<open>[0, ns ! j)\<close> no error is raised and
    the row of an edge, the concatenated one-hot vectors, sums to the number of columns.
    A code of a column outside that range, with the cardinalities positive and one per
    column, is an error.
\<close>

theorem edge_attr_one_hot_modes:
  "(valid_codes_int t n \<longrightarrow>
      edge_attr_one_hot (Some t) (IsInt n)
        = Inr (Cube (map (map (\<lambda>c. map real_of_int (one_hot_row (nat n) (c - 1)))) (rows t)))
      \<and> (\<forall>r \<in> set (rows t).
            sum_list (concat (map (\<lambda>c. map real_of_int (one_hot_row (nat n) (c - 1))) r))
              = real (cols t)))
   \<and> ((\<exists>r \<in> set (rows t). 0 \<in> set r) \<longrightarrow>
        edge_attr_one_hot (Some t) (IsInt n) = Inl RuntimeError)
   \<and> (0 < n \<and> (\<exists>r \<in> set (rows t). \<exists>c \<in> set r. c < 1 \<or> n < c) \<longrightarrow>
        edge_attr_one_hot (Some t) (IsInt n) = Inl RuntimeError)
   \<and> (valid_codes t ns \<longrightarrow>
      edge_attr_one_hot (Some t) (IsSeq ns) = Inr (Mat (map (one_hot_features ns) (rows t)))
      \<and> (\<forall>r \<in> set (rows t). sum_list (one_hot_features ns r) = real (cols t)))
   \<and> (cols t = length ns \<and> (\<forall>k \<in> set ns. 0 < k)
        \<and> (\<exists>r \<in> set (rows t). \<exists>j < length ns. r ! j < 0 \<or> ns ! j \<le> r ! j) \<longrightarrow>
        edge_attr_one_hot (Some t) (IsSeq ns) = Inl RuntimeError)"
proof (intro conjI impI ballI)
  assume v: "valid_codes_int t n"
  show "edge_attr_one_hot (Some t) (IsInt n)
      = Inr (Cube (map (map (\<lambda>c. map real_of_int (one_hot_row (nat n) (c - 1)))) (rows t)))"
    using v by (rule edge_attr_one_hot_int)
  fix r assume r: "r \<in> set (rows t)"
  note u = valid_codes_int_unfold [OF v]
  have "length r = cols t" using u(1) r by (simp add: wf_int_tensor_def list_all_iff)
  moreover have "\<forall>c \<in> set r. 1 \<le> c \<and> c \<le> n" using u(3) r by blast
  ultimately show "sum_list (concat (map (\<lambda>c. map real_of_int (one_hot_row (nat n) (c - 1))) r))
      = real (cols t)"
    using sum_list_int_row [OF u(2), of r] by simp
next
  assume "\<exists>r \<in> set (rows t). 0 \<in> set r"
  then show "edge_attr_one_hot (Some t) (IsInt n) = Inl RuntimeError"
    by (rule edge_attr_one_hot_int_zero)
next
  assume "0 < n \<and> (\<exists>r \<in> set (rows t). \<exists>c \<in> set r. c < 1 \<or> n < c)"
  then show "edge_attr_one_hot (Some t) (IsInt n) = Inl RuntimeError"
    using edge_attr_one_hot_int_bad [of n t] by blast
next
  assume v: "valid_codes t ns"
  show "edge_attr_one_hot (Some t) (IsSeq ns) = Inr (Mat (map (one_hot_features ns) (rows t)))"
    using v by (rule edge_attr_one_hot_seq)
  fix r assume r: "r \<in> set (rows t)"
  note u = valid_codes_unfold [OF v]
  have "\<forall>j < length ns. 0 \<le> r ! j \<and> r ! j < ns ! j" using u(5) r by blast
  then show "sum_list (one_hot_features ns r) = real (cols t)"
    using sum_list_one_hot_features [of ns r] u(2) by simp
next
  assume "cols t = length ns \<and> (\<forall>k \<in> set ns. 0 < k)
    \<and> (\<exists>r \<in> set (rows t). \<exists>j < length ns. r ! j < 0 \<or> ns ! j \<le> r ! j)"
  then show "edge_attr_one_hot (Some t) (IsSeq ns) = Inl RuntimeError"
    using edge_attr_one_hot_seq_bad [of t ns] by blast
qed

theorem edge_attr_one_hot_modes_witness:
  "valid_codes_int bonds_from_one 3
   \<and> edge_attr_one_hot (Some bonds_from_one) (IsInt 3)
       = Inr (Cube [[[1, 0, 0], [0, 0, 1]], [[0, 1, 0], [1, 0, 0]]])
   \<and> (\<exists>r \<in> set (rows bonds). 0 \<in> set r)
   \<and> edge_attr_one_hot (Some bonds) (IsInt 3) = Inl RuntimeError
   \<and> valid_codes bonds [2, 3]
   \<and> edge_attr_one_hot (Some bonds) (IsSeq [2, 3])
       = Inr (Mat [[1, 0, 0, 0, 1], [1, 0, 0, 0, 1], [0, 1, 1, 0, 0], [0, 1, 1, 0, 0]])
   \<and> sum_list (one_hot_features [2, 3] [0, 2]) = real (cols bonds)
   \<and> edge_attr_one_hot (Some bonds) (IsSeq [2, 2]) = Inl RuntimeError"
proof -
  have h1: "valid_codes_int bonds_from_one 3" by code_simp
  have h2: "\<exists>r \<in> set (rows bonds). 0 \<in> set r" by (simp add: bonds_def)
  have h3: "valid_codes bonds [2, 3]" by code_simp
  have r: "[0, 2] \<in> set (rows bonds)" by (simp add: bonds_def)
  have v1: "map (map (\<lambda>c. map real_of_int (one_hot_row (nat 3) (c - 1)))) (rows bonds_from_one)
      = [[[1, 0, 0], [0, 0, 1]], [[0, 1, 0], [1, 0, 0]]]"
    by code_simp
  have v2: "map (one_hot_features [2, 3]) (rows bonds)
      = [[1, 0, 0, 0, 1], [1, 0, 0, 0, 1], [0, 1, 1, 0, 0], [0, 1, 1, 0, 0]]"
    by code_simp
  note int_mode = edge_attr_one_hot_modes [of bonds_from_one 3 "[2, 3]"]
  note seq_mode = edge_attr_one_hot_modes [of bonds 3 "[2, 3]"]
  have a: "edge_attr_one_hot (Some bonds_from_one) (IsInt 3)
      = Inr (Cube [[[1, 0, 0], [0, 0, 1]], [[0, 1, 0], [1, 0, 0]]])"
    using int_mode h1 v1 by simp
  have b: "edge_attr_one_hot (Some bonds) (IsInt 3) = Inl RuntimeError"
    using seq_mode h2 by blast
  have c: "edge_attr_one_hot (Some bonds) (IsSeq [2, 3])
      = Inr (Mat [[1, 0, 0, 0, 1], [1, 0, 0, 0, 1], [0, 1, 1, 0, 0], [0, 1, 1, 0, 0]])"
    using seq_mode h3 v2 by simp
  have d: "sum_list (one_hot_features [2, 3] [0, 2]) = real (cols bonds)"
    using seq_mode h3 r by blast
  have "[0, 2] ! 1 < (0::int) \<or> [2, 2] ! 1 \<le> ([0, 2] ! 1 :: int)" by simp
  then have "\<exists>j < length [2, 2::int]. [0, 2] ! j < (0::int) \<or> [2, 2] ! j \<le> ([0, 2] ! j :: int)"
    by (intro exI [of _ 1]) simp
  with r have h4: "\<exists>r \<in> set (rows bonds). \<exists>j < length [2, 2::int]. r ! j < 0 \<or> [2, 2] ! j \<le> r ! j"
    by (rule rev_bexI)
  have h5: "cols bonds = length [2, 2::int] \<and> (\<forall>k \<in> set [2, 2::int]. 0 < k)"
    by (simp add: bonds_def)
  have e: "edge_attr_one_hot (Some bonds) (IsSeq [2, 2]) = Inl RuntimeError"
    using edge_attr_one_hot_modes [of bonds 3 "[2, 2]"] h4 h5 by blast
  show ?thesis using h1 h2 h3 a b c d e by blast
qed

subsection \<open>The channels of \<^verbatim>\<open>compute_pe\<close>\<close>

lemma pe_channels_ok:
  assumes "\<forall>i \<in> set is. \<exists>m. chan i = Inr m \<and> square n m"
  shows "pe_channels chan n is = Inr (map (\<lambda>i. projr (chan i)) is)"
  using assms by (induction "is") auto

lemma pstep_cpefew_wf:
  assumes "wf_edges n ei" "valid_normalization (normalization self)" "edge_weight_ok ei ew"
  shows "\<exists>X. PStepRWEncoding_compute_pe_from_edge_weight self ei ew n = Inr X \<and> square n X"
proof -
  obtain M where M: "pstep_base self ei ew n = Inr M" "square n M"
    using pstep_base_wf [OF assms] by blast
  have "pstep_run self ei ew n
      = Inr (mat_pow M (Suc (nat (p self - 1))), nat (p self - 1))"
    using M(1) pstep_loop_from_base [OF M(2)] by (simp add: pstep_run_def)
  then have "PStepRWEncoding_compute_pe_from_edge_weight self ei ew n
      = Inr (mat_pow M (Suc (nat (p self - 1))))"
    by (simp add: PStepRWEncoding_compute_pe_from_edge_weight_def)
  then show ?thesis using square_mat_pow [OF M(2)] by blast
qed

lemma diffusion_cpefew_wf:
  assumes "wf_edges n ei" "valid_normalization (normalization self)" "edge_weight_ok ei ew"
    and "\<forall>A. square n A \<longrightarrow> square n (expm A)"
  shows "\<exists>X. DiffusionEncoding_compute_pe_from_edge_weight expm self ei ew n = Inr X \<and> square n X"
proof -
  obtain L where L: "laplacian ei ew (normalization self) n = Inr L" "square n L"
    using laplacian_wf [OF assms(1-3)] by blast
  have "square n (expm (scale (- beta self) L))"
    using assms(4) square_scale [OF L(2)] by blast
  then show ?thesis
    using L(1) by (simp add: DiffusionEncoding_compute_pe_from_edge_weight_def)
qed

lemma compute_pe_body_channels:
  assumes cfg: "edge_attr_config self ns" and codes: "valid_codes t ns"
    and g: "attributed_graph g t"
    and cpe: "\<And>w. length w = length (edge_index g) \<Longrightarrow>
        \<exists>m. cpefew (edge_index g) (Some w) (num_nodes g) = Inr m \<and> square (num_nodes g) m"
  shows "\<exists>chans. compute_pe_body cpefew self g = Inr (Cube chans)
      \<and> length chans = nat (sum_list ns)
      \<and> (\<forall>i < length chans. square (num_nodes g) (chans ! i)
            \<and> cpefew (edge_index g) (Some (map (\<lambda>r. one_hot_features ns r ! i) (rows t)))
                 (num_nodes g) = Inr (chans ! i))"
proof -
  note v = valid_codes_unfold [OF codes]
  let ?C = "nat (sum_list ns)"
  let ?X = "map (one_hot_features ns) (rows t)"
  let ?w = "\<lambda>i. map (\<lambda>r. one_hot_features ns r ! i) (rows t)"
  let ?chan = "\<lambda>i. case channel_weight self g (Mat ?X) i of
                      Inl e \<Rightarrow> Inl e
                    | Inr w \<Rightarrow> cpefew (edge_index g) (Some w) (num_nodes g)"
  have ea: "edge_attr g = Some t" and len: "length (rows t) = length (edge_index g)"
    using g by (simp_all add: attributed_graph_def)
  have use: "use_edge_attr self" and nef: "num_edge_features self = IsSeq ns"
    using cfg by (simp_all add: edge_attr_config_def)
  have oh: "edge_attr_one_hot (edge_attr g) (num_edge_features self) = Inr (Mat ?X)"
    using ea nef edge_attr_one_hot_seq [OF codes] by simp
  have nonneg: "0 \<le> sum_list ns" using v(4) by (intro sum_list_nonneg) auto
  have true: "num_edge_features_true self = sum_list ns"
    using nef by (simp add: num_edge_features_true_def)
  have weight: "\<And>i. i < ?C \<Longrightarrow> channel_weight self g (Mat ?X) i = Inr (?w i)"
    using length_one_hot_features [OF v(4)]
    by (simp add: channel_weight_def list_all_iff comp_def)
  have chan: "\<And>i. i < ?C \<Longrightarrow>
      ?chan i = cpefew (edge_index g) (Some (?w i)) (num_nodes g)"
    using weight by simp
  have ok: "\<forall>i \<in> set [0..<?C]. \<exists>m. ?chan i = Inr m \<and> square (num_nodes g) m"
  proof
    fix i assume "i \<in> set [0..<?C]"
    then have i: "i < ?C" by simp
    have "length (?w i) = length (edge_index g)" using len by simp
    then show "\<exists>m. ?chan i = Inr m \<and> square (num_nodes g) m"
      using cpe [of "?w i"] chan [OF i] by simp
  qed
  define chans where "chans = map (\<lambda>i. projr (?chan i)) [0..<?C]"
  have pc: "pe_channels ?chan (num_nodes g) [0..<?C] = Inr chans"
    unfolding chans_def using ok by (rule pe_channels_ok)
  have body: "compute_pe_body cpefew self g = Inr (Cube chans)"
    using use oh nonneg true pc by (simp add: compute_pe_body_def)
  have each: "\<forall>i < length chans. square (num_nodes g) (chans ! i)
      \<and> cpefew (edge_index g) (Some (?w i)) (num_nodes g) = Inr (chans ! i)"
  proof (intro allI impI)
    fix i assume "i < length chans"
    then have i: "i < ?C" by (simp add: chans_def)
    then have "i \<in> set [0..<?C]" by simp
    with ok have "\<exists>m. ?chan i = Inr m \<and> square (num_nodes g) m" by (rule bspec)
    then obtain m where m: "?chan i = Inr m" "square (num_nodes g) m" by blast
    have "chans ! i = projr (?chan i)" using i by (simp add: chans_def)
    then have "chans ! i = m" using m(1) by simp
    then show "square (num_nodes g) (chans ! i)
        \<and> cpefew (edge_index g) (Some (?w i)) (num_nodes g) = Inr (chans ! i)"
      using m chan [OF i] by simp
  qed
  show ?thesis using body each by (intro exI [of _ chans]) (simp add: chans_def)
qed

text \<open>
  Claim C7. For a well-formed graph with one row of valid codes per edge, and an encoder
  (P-step or diffusion) with \<^verbatim>\<open>use_edge_attr\<close> set and the sequence \<open>ns\<close> of cardinalities,
  \<^verbatim>\<open>compute_pe\<close> returns a tensor of rank 3 with \<open>sum_list ns\<close> channels, each an
  \<open>N \<times> N\<close> matrix, and channel \<open>i\<close> is what \<^verbatim>\<open>compute_pe_from_edge_weight\<close> returns for
  column \<open>i\<close> of the one-hot matrix as edge weights. For the diffusion encoder \<^verbatim>\<open>expm\<close>
  is assumed to return a matrix of the size of its argument.
\<close>

theorem edge_attr_channel_count:
  assumes codes: "valid_codes t ns" and g: "attributed_graph g t"
    and s: "edge_attr_config s ns" and d: "edge_attr_config d ns"
    and expm: "\<forall>A. square (num_nodes g) A \<longrightarrow> square (num_nodes g) (expm A)"
  shows "(\<exists>chans. PStepRWEncoding_compute_pe s g = Inr (Cube chans)
            \<and> length chans = nat (sum_list ns)
            \<and> (\<forall>i < length chans. square (num_nodes g) (chans ! i)
                  \<and> PStepRWEncoding_compute_pe_from_edge_weight s (edge_index g)
                       (Some (map (\<lambda>r. one_hot_features ns r ! i) (rows t))) (num_nodes g)
                     = Inr (chans ! i)))
       \<and> (\<exists>chans. DiffusionEncoding_compute_pe expm d g = Inr (Cube chans)
            \<and> length chans = nat (sum_list ns)
            \<and> (\<forall>i < length chans. square (num_nodes g) (chans ! i)
                  \<and> DiffusionEncoding_compute_pe_from_edge_weight expm d (edge_index g)
                       (Some (map (\<lambda>r. one_hot_features ns r ! i) (rows t))) (num_nodes g)
                     = Inr (chans ! i)))"
proof
  have wf: "wf_edges (num_nodes g) (edge_index g)" using g by (simp add: attributed_graph_def)
  have ns: "valid_normalization (normalization s)" using s by (simp add: edge_attr_config_def)
  have nd: "valid_normalization (normalization d)" using d by (simp add: edge_attr_config_def)
  have ps: "\<And>w. length w = length (edge_index g) \<Longrightarrow>
      \<exists>m. PStepRWEncoding_compute_pe_from_edge_weight s (edge_index g) (Some w) (num_nodes g) = Inr m
          \<and> square (num_nodes g) m"
    using pstep_cpefew_wf [OF wf ns] by (simp add: edge_weight_ok_def)
  have pd: "\<And>w. length w = length (edge_index g) \<Longrightarrow>
      \<exists>m. DiffusionEncoding_compute_pe_from_edge_weight expm d (edge_index g) (Some w) (num_nodes g)
            = Inr m \<and> square (num_nodes g) m"
    using diffusion_cpefew_wf [OF wf nd _ expm] by (simp add: edge_weight_ok_def)
  show "\<exists>chans. PStepRWEncoding_compute_pe s g = Inr (Cube chans)
      \<and> length chans = nat (sum_list ns)
      \<and> (\<forall>i < length chans. square (num_nodes g) (chans ! i)
            \<and> PStepRWEncoding_compute_pe_from_edge_weight s (edge_index g)
                 (Some (map (\<lambda>r. one_hot_features ns r ! i) (rows t))) (num_nodes g)
               = Inr (chans ! i))"
    unfolding PStepRWEncoding_compute_pe_def
    using compute_pe_body_channels
      [where cpefew = "PStepRWEncoding_compute_pe_from_edge_weight s", OF s codes g ps]
    by simp
  show "\<exists>chans. DiffusionEncoding_compute_pe expm d g = Inr (Cube chans)
      \<and> length chans = nat (sum_list ns)
      \<and> (\<forall>i < length chans. square (num_nodes g) (chans ! i)
            \<and> DiffusionEncoding_compute_pe_from_edge_weight expm d (edge_index g)
                 (Some (map (\<lambda>r. one_hot_features ns r ! i) (rows t))) (num_nodes g)
               = Inr (chans ! i))"
    unfolding DiffusionEncoding_compute_pe_def
    using compute_pe_body_channels
      [where cpefew = "DiffusionEncoding_compute_pe_from_edge_weight expm d", OF d codes g pd]
    by simp
qed

lemma square_expm_order1: "square n A \<Longrightarrow> square n (expm_order1 A)"
  by (simp add: expm_order1_def square_length square_mat_sub square_identity square_scale)

theorem edge_attr_channel_count_witness:
  "valid_codes bonds [4, 6] \<and> attributed_graph bond_graph bonds
   \<and> edge_attr_config pstep_bonds [4, 6] \<and> edge_attr_config diffusion_bonds [4, 6]
   \<and> (\<exists>chans. PStepRWEncoding_compute_pe pstep_bonds bond_graph = Inr (Cube chans)
         \<and> length chans = 10
         \<and> chans ! 0 = [[1/2, 1/2, 0], [1/2, 1/2, 0], [0, 0, 1]])
   \<and> (\<exists>chans. DiffusionEncoding_compute_pe expm_order1 diffusion_bonds bond_graph
                 = Inr (Cube chans)
         \<and> length chans = 10)"
proof -
  have h1: "valid_codes bonds [4, 6]" by code_simp
  have h2: "attributed_graph bond_graph bonds" by code_simp
  have h3: "edge_attr_config pstep_bonds [4, 6]" by code_simp
  have h4: "edge_attr_config diffusion_bonds [4, 6]" by code_simp
  have h5: "\<forall>A. square (num_nodes bond_graph) A \<longrightarrow> square (num_nodes bond_graph) (expm_order1 A)"
    by (simp add: square_expm_order1)
  have w0: "map (\<lambda>r. one_hot_features [4, 6] r ! 0) (rows bonds) = [1, 1, 0, 0]"
    by code_simp
  have c0: "PStepRWEncoding_compute_pe_from_edge_weight pstep_bonds (edge_index bond_graph)
              (Some [1, 1, 0, 0]) (num_nodes bond_graph)
            = Inr [[1/2, 1/2, 0], [1/2, 1/2, 0], [0, 0, 1]]"
    by code_simp
  have ten: "nat (sum_list [4, 6]) = 10" by simp
  note inst = edge_attr_channel_count [OF h1 h2 h3 h4 h5]
  obtain chans where p: "PStepRWEncoding_compute_pe pstep_bonds bond_graph = Inr (Cube chans)"
      "length chans = nat (sum_list [4, 6])"
      "\<forall>i < length chans. square (num_nodes bond_graph) (chans ! i)
          \<and> PStepRWEncoding_compute_pe_from_edge_weight pstep_bonds (edge_index bond_graph)
               (Some (map (\<lambda>r. one_hot_features [4, 6] r ! i) (rows bonds))) (num_nodes bond_graph)
             = Inr (chans ! i)"
    using inst by blast
  have "0 < length chans" using p(2) ten by simp
  then have "PStepRWEncoding_compute_pe_from_edge_weight pstep_bonds (edge_index bond_graph)
               (Some (map (\<lambda>r. one_hot_features [4, 6] r ! 0) (rows bonds))) (num_nodes bond_graph)
             = Inr (chans ! 0)"
    using p(3) by blast
  then have first: "chans ! 0 = [[1/2, 1/2, 0], [1/2, 1/2, 0], [0, 0, 1]]"
    using w0 c0 by simp
  have a: "\<exists>chans. PStepRWEncoding_compute_pe pstep_bonds bond_graph = Inr (Cube chans)
         \<and> length chans = 10 \<and> chans ! 0 = [[1/2, 1/2, 0], [1/2, 1/2, 0], [0, 0, 1]]"
    using p(1,2) ten first by auto
  have b: "\<exists>chans. DiffusionEncoding_compute_pe expm_order1 diffusion_bonds bond_graph
                 = Inr (Cube chans) \<and> length chans = 10"
    using inst ten by auto
  show ?thesis using h1 h2 h3 h4 a b by blast
qed



end
